theory Spec2Isabelle
  imports Complex_Main "HOL-Library.Char_ord" "HOL-Library.List_Lexorder" "HOL-Library.Log_Nat"
begin

section \<open>Arbitrage detection and allocation engine\<close>

text \<open>
  A shallow embedding of \<^verbatim>\<open>app/services/arbitrage_detector.py\<close> and of the cleanup
  sweep of \<^verbatim>\<open>app/services/background_tasks.py\<close>.

  Numbers. The code computes in Python's \<^verbatim>\<open>float\<close> (IEEE 754 binary64). A number of
  the model is the exact rational value of such a float (\<^typ>\<open>rat\<close>). The calculator is
  given twice. \<open>calculate_arbitrage\<close> carries the arithmetic out exactly, with
  \<^verbatim>\<open>round(x, 2)\<close> the decimal rounding of the exact value; it serves the properties
  that a rounding error of the last binary digit cannot touch (which bookmaker is chosen,
  which markets are skipped, bounds that leave room for it). \<open>calculate_arbitrage_float\<close>
  rounds every operation to the nearest binary64 number, as the code does; it serves the
  properties that turn on such an error (the comparison of a sum with 1.0, a value next
  to a rounding tie).

  Clock. \<^verbatim>\<open>datetime.utcnow()\<close> is read several times during one call; the model takes
  one reading \<open>now\<close> (seconds since the epoch) as a parameter of each function.
\<close>

subsection \<open>Python values\<close>

datatype py_error = TypeError | KeyError | ZeroDivisionError | MultipleResultsFound

text \<open>
  A \<^verbatim>\<open>dict\<close> with string keys, in insertion order. \<^verbatim>\<open>d[k] = v\<close> replaces the value
  of an existing key in place and appends a new key at the end.
\<close>

type_synonym 'v dict = "(string \<times> 'v) list"

definition dict_get :: "'v dict \<Rightarrow> string \<Rightarrow> 'v option" where
  "dict_get d k = map_of d k"

definition dict_keys :: "'v dict \<Rightarrow> string list" where
  "dict_keys d = map fst d"

definition dict_values :: "'v dict \<Rightarrow> 'v list" where
  "dict_values d = map snd d"

fun dict_set :: "string \<Rightarrow> 'v \<Rightarrow> 'v dict \<Rightarrow> 'v dict" where
  "dict_set k v [] = [(k, v)]"
| "dict_set k v ((k', v') # d) =
     (if k' = k then (k, v) # d else (k', v') # dict_set k v d)"

text \<open>
  A \<^verbatim>\<open>datetime\<close> is naive or timezone-aware; the argument is the instant in seconds
  (UTC). Subtracting a naive from an aware value (or the reverse) raises \<^verbatim>\<open>TypeError\<close>;
  otherwise the result is the \<^verbatim>\<open>timedelta\<close>, here its \<^verbatim>\<open>total_seconds()\<close>.
\<close>

datatype datetime = Naive rat | Aware rat

fun instant :: "datetime \<Rightarrow> rat" where
  "instant (Naive t) = t"
| "instant (Aware t) = t"

fun datetime_sub :: "datetime \<Rightarrow> datetime \<Rightarrow> py_error + rat" where
  "datetime_sub (Naive a) (Naive b) = Inr (a - b)"
| "datetime_sub (Aware a) (Aware b) = Inr (a - b)"
| "datetime_sub (Naive a) (Aware b) = Inl TypeError"
| "datetime_sub (Aware a) (Naive b) = Inl TypeError"

text \<open>
  \<^verbatim>\<open>round(x, 2)\<close>: the nearest multiple of 1/100, a tie going to the even multiple.
\<close>

definition round_half_even :: "rat \<Rightarrow> int" where
  "round_half_even y =
     (let f = \<lfloor>y\<rfloor>; d = y - of_int f
      in if d < 1 / 2 then f
         else if 1 / 2 < d then f + 1
         else if even f then f else f + 1)"

definition py_round2 :: "rat \<Rightarrow> rat" where
  "py_round2 x = of_int (round_half_even (x * 100)) / 100"

subsection \<open>Data model\<close>

type_synonym uuid = nat

text \<open>The columns of \<^verbatim>\<open>Event\<close> that the detector reads.\<close>

record event =
  ev_id :: uuid
  sport :: string
  commence_time :: datetime

text \<open>
  The columns of \<^verbatim>\<open>OddsSnapshot\<close> that the detector reads; \<open>odds_data\<close> maps a market
  type to that bookmaker's mapping from outcome name to decimal price.
\<close>

record odds_snapshot =
  snap_event_id :: uuid
  bookmaker :: string
  odds_data :: "rat dict dict"
  captured_at :: datetime
  is_active :: bool

text \<open>One value of \<^verbatim>\<open>market_data\<close>: \<^verbatim>\<open>{'odds': ..., 'timestamp': ...}\<close>.\<close>

record bookmaker_data =
  odds :: "rat dict"
  timestamp :: datetime

type_synonym market_data = "bookmaker_data dict"

text \<open>
  The opportunity dictionary built by \<^verbatim>\<open>_calculate_arbitrage\<close>. \<open>expires_at\<close> is
  optional because the column it is stored in is nullable; the calculator always sets it.
\<close>

record opportunity =
  event_id :: uuid
  market_type :: string
  profit_percentage :: rat
  total_stake :: rat
  expected_profit :: rat
  bookmaker_stakes :: "rat dict dict"
  bookmaker_odds :: "rat dict dict"
  risk_score :: rat
  expires_at :: "datetime option"

text \<open>The attributes of \<^verbatim>\<open>ArbitrageDetector\<close>, read from the settings.\<close>

record arbitrage_detector =
  min_profit_percentage :: rat
  max_stake_percentage :: rat
  kelly_fraction :: rat

subsection \<open>Risk scorer\<close>

text \<open>
  The loop over \<^verbatim>\<open>market_data.values()\<close> that computes \<^verbatim>\<open>oldest_odds_age\<close> in minutes.
\<close>

fun oldest_age :: "rat \<Rightarrow> bookmaker_data list \<Rightarrow> rat \<Rightarrow> py_error + rat" where
  "oldest_age now [] oldest_odds_age = Inr oldest_odds_age"
| "oldest_age now (d # ds) oldest_odds_age =
     (case datetime_sub (Naive now) (timestamp d) of
        Inl e \<Rightarrow> Inl e
      | Inr secs \<Rightarrow> oldest_age now ds (max oldest_odds_age (secs / 60)))"

text \<open>The body of the \<^verbatim>\<open>try\<close> block of \<^verbatim>\<open>_calculate_risk_score\<close>.\<close>

definition risk_score_body :: "rat \<Rightarrow> event \<Rightarrow> market_data \<Rightarrow> py_error + rat" where
  "risk_score_body now ev md =
     (case datetime_sub (commence_time ev) (Naive now) of
        Inl e \<Rightarrow> Inl e
      | Inr secs \<Rightarrow>
          let time_to_event = secs / 3600;
              r1 = 5 + (if time_to_event < 1 then 2
                        else if time_to_event < 24 then 1
                        else if 168 < time_to_event then 1 else 0);
              num_bookmakers = length md;
              r2 = r1 + (if 4 \<le> num_bookmakers then - 1
                         else if num_bookmakers = 2 then 1 else 0)
          in case oldest_age now (dict_values md) 0 of
               Inl e \<Rightarrow> Inl e
             | Inr oldest_odds_age \<Rightarrow>
                 let r3 = r2 + (if 10 < oldest_odds_age then 1 else 0);
                     r4 = r3 + (if 30 < oldest_odds_age then 2 else 0);
                     r5 = r4 + (if sport ev \<in> set [''tennis'', ''basketball_nba'']
                                then 1 / 2 else 0)
                 in Inr (min (max r5 1) 10))"

text \<open>\<^verbatim>\<open>_calculate_risk_score\<close>: any exception of the body is caught and answered by 5.0.\<close>

definition calculate_risk_score :: "rat \<Rightarrow> event \<Rightarrow> market_data \<Rightarrow> rat" where
  "calculate_risk_score now ev md =
     (case risk_score_body now ev md of Inl e \<Rightarrow> 5 | Inr r \<Rightarrow> r)"

subsection \<open>Arbitrage calculator\<close>

text \<open>
  \<^verbatim>\<open>all_outcomes\<close> is a Python set; the model lists its elements once each. (The
  source iterates the set in an unspecified order; the properties below are about sums
  over, and lookups in, the dictionaries built from it.)
\<close>

definition all_outcomes_of :: "market_data \<Rightarrow> string list" where
  "all_outcomes_of md = remdups (concat (map (\<lambda>d. dict_keys (odds d)) (dict_values md)))"

text \<open>\<^verbatim>\<open>bookmaker_data['odds'].get(outcome, 0)\<close>\<close>

definition price_of :: "bookmaker_data \<Rightarrow> string \<Rightarrow> rat" where
  "price_of d outcome = (case dict_get (odds d) outcome of None \<Rightarrow> 0 | Some p \<Rightarrow> p)"

text \<open>
  The inner loop over \<^verbatim>\<open>market_data.items()\<close>. The variables \<^verbatim>\<open>best_odd\<close> and
  \<^verbatim>\<open>best_bookmaker\<close> start as \<^verbatim>\<open>0\<close> and \<^verbatim>\<open>None\<close> and are assigned together, so the
  pair is \<open>None\<close> before the first assignment and \<open>Some (best_odd, best_bookmaker)\<close>
  after it.
\<close>

fun best_for :: "string \<Rightarrow> market_data \<Rightarrow> (rat \<times> string) option \<Rightarrow> (rat \<times> string) option" where
  "best_for outcome [] best = best"
| "best_for outcome ((bm, d) # rest) best =
     (let best_odd = (case best of None \<Rightarrow> 0 | Some (p, _) \<Rightarrow> p)
      in if best_odd < price_of d outcome
         then best_for outcome rest (Some (price_of d outcome, bm))
         else best_for outcome rest best)"

text \<open>The outer loop: fills \<^verbatim>\<open>best_odds\<close> and \<^verbatim>\<open>best_bookmakers\<close>.\<close>

fun find_best :: "market_data \<Rightarrow> string list \<Rightarrow> rat dict \<times> string dict \<Rightarrow> rat dict \<times> string dict" where
  "find_best md [] acc = acc"
| "find_best md (outcome # rest) (best_odds, best_bookmakers) =
     (case best_for outcome md None of
        None \<Rightarrow> find_best md rest (best_odds, best_bookmakers)
      | Some (best_odd, best_bookmaker) \<Rightarrow>
          if 0 < best_odd
          then find_best md rest
                 (dict_set outcome best_odd best_odds,
                  dict_set outcome best_bookmaker best_bookmakers)
          else find_best md rest (best_odds, best_bookmakers))"

text \<open>
  \<^verbatim>\<open>opportunity[field][bookmaker][outcome] = v\<close>; a missing bookmaker key raises
  \<^verbatim>\<open>KeyError\<close>.
\<close>

definition nested_set :: "string \<Rightarrow> string \<Rightarrow> rat \<Rightarrow> rat dict dict \<Rightarrow> rat dict dict option" where
  "nested_set bm outcome v d =
     (case dict_get d bm of
        None \<Rightarrow> None
      | Some inner \<Rightarrow> Some (dict_set bm (dict_set outcome v inner) d))"

text \<open>
  The last loop: stakes and odds organised by bookmaker. A failed lookup raises
  \<^verbatim>\<open>KeyError\<close>, which the calculator catches; the model returns \<open>None\<close> there.
\<close>

fun organize :: "string list \<Rightarrow> string dict \<Rightarrow> rat dict \<Rightarrow> rat dict \<Rightarrow>
    rat dict dict \<times> rat dict dict \<Rightarrow> (rat dict dict \<times> rat dict dict) option" where
  "organize [] best_bookmakers stakes best_odds acc = Some acc"
| "organize (outcome # rest) best_bookmakers stakes best_odds (bstakes, bodds) =
     (case dict_get best_bookmakers outcome of
        None \<Rightarrow> None
      | Some bm \<Rightarrow>
          let (bstakes1, bodds1) =
                (if bm \<notin> set (dict_keys bstakes)
                 then (dict_set bm [] bstakes, dict_set bm [] bodds)
                 else (bstakes, bodds))
          in case dict_get stakes outcome of
               None \<Rightarrow> None
             | Some s \<Rightarrow>
                 (case nested_set bm outcome s bstakes1 of
                    None \<Rightarrow> None
                  | Some bstakes2 \<Rightarrow>
                      (case dict_get best_odds outcome of
                         None \<Rightarrow> None
                       | Some p \<Rightarrow>
                           (case nested_set bm outcome p bodds1 of
                              None \<Rightarrow> None
                            | Some bodds2 \<Rightarrow>
                                organize rest best_bookmakers stakes best_odds
                                  (bstakes2, bodds2)))))"

text \<open>
  \<^verbatim>\<open>_calculate_arbitrage\<close>. \<open>None\<close> is the source's \<^verbatim>\<open>return None\<close>, also the one of
  its \<^verbatim>\<open>except\<close> clause (a division by zero, a missing key).
\<close>

definition calculate_arbitrage ::
    "arbitrage_detector \<Rightarrow> rat \<Rightarrow> event \<Rightarrow> string \<Rightarrow> market_data \<Rightarrow> opportunity option" where
  "calculate_arbitrage self now ev mt md =
     (let all_outcomes = all_outcomes_of md in
      if length all_outcomes < 2 then None
      else
        let (best_odds, best_bookmakers) = find_best md all_outcomes ([], []) in
        if length best_odds \<noteq> length all_outcomes then None
        else if 0 \<in> set (dict_values best_odds) then None
        else
          let implied_probabilities = map (\<lambda>(outcome, p). (outcome, 1 / p)) best_odds;
              total_implied_probability = sum_list (dict_values implied_probabilities) in
          if 1 \<le> total_implied_probability then None
          else if total_implied_probability = 0 then None
          else
            let profit = ((1 - total_implied_probability) / total_implied_probability) * 100 in
            if profit < min_profit_percentage self then None
            else
              let total_stk = 1000;
                  stakes = map (\<lambda>(outcome, probability).
                             (outcome, py_round2 (probability / total_implied_probability * total_stk)))
                             implied_probabilities;
                  expected = total_stk * (profit / 100)
              in case organize all_outcomes best_bookmakers stakes best_odds ([], []) of
                   None \<Rightarrow> None
                 | Some (bstakes, bodds) \<Rightarrow>
                     Some \<lparr> event_id = ev_id ev,
                            market_type = mt,
                            profit_percentage = py_round2 profit,
                            total_stake = total_stk,
                            expected_profit = py_round2 expected,
                            bookmaker_stakes = bstakes,
                            bookmaker_odds = bodds,
                            risk_score = calculate_risk_score now ev md,
                            expires_at = Some (Naive (now + 900)) \<rparr>)"

subsection \<open>Market aggregator\<close>

text \<open>
  The query of \<^verbatim>\<open>_analyze_event_for_arbitrage\<close> over the snapshot table: the active
  snapshots of the event captured in the last 30 minutes, newest first.
\<close>

definition is_fresh :: "rat \<Rightarrow> event \<Rightarrow> odds_snapshot \<Rightarrow> bool" where
  "is_fresh now ev s \<longleftrightarrow>
     snap_event_id s = ev_id ev \<and> is_active s \<and> now - 1800 < instant (captured_at s)"

definition fresh_snapshots :: "rat \<Rightarrow> event \<Rightarrow> odds_snapshot list \<Rightarrow> odds_snapshot list" where
  "fresh_snapshots now ev snapshot_table =
     sort_key (\<lambda>s. - instant (captured_at s)) (filter (is_fresh now ev) snapshot_table)"

text \<open>
  The inner loop over \<^verbatim>\<open>snapshot.odds_data.items()\<close>. The source first stores an empty
  dictionary under a market type it has not seen and then assigns the bookmaker's entry
  in it; the model reads the market's dictionary (empty when the key is new) and stores
  the extended one, which leaves the same \<^verbatim>\<open>odds_by_market\<close>.
\<close>

fun group_markets :: "rat dict dict \<Rightarrow> string \<Rightarrow> datetime \<Rightarrow> market_data dict \<Rightarrow> market_data dict" where
  "group_markets [] bm ts odds_by_market = odds_by_market"
| "group_markets ((mt, market_odds) # rest) bm ts odds_by_market =
     (let md = (case dict_get odds_by_market mt of None \<Rightarrow> [] | Some m \<Rightarrow> m)
      in group_markets rest bm ts
           (dict_set mt (dict_set bm \<lparr> odds = market_odds, timestamp = ts \<rparr> md) odds_by_market))"

fun group_snapshots :: "odds_snapshot list \<Rightarrow> market_data dict \<Rightarrow> market_data dict" where
  "group_snapshots [] odds_by_market = odds_by_market"
| "group_snapshots (s # rest) odds_by_market =
     group_snapshots rest (group_markets (odds_data s) (bookmaker s) (captured_at s) odds_by_market)"

text \<open>The loop over \<^verbatim>\<open>odds_by_market.items()\<close>.\<close>

fun analyze_markets ::
    "arbitrage_detector \<Rightarrow> rat \<Rightarrow> event \<Rightarrow> market_data dict \<Rightarrow> opportunity list" where
  "analyze_markets self now ev [] = []"
| "analyze_markets self now ev ((mt, md) # rest) =
     (if 2 \<le> length md
      then (case calculate_arbitrage self now ev mt md of
              None \<Rightarrow> analyze_markets self now ev rest
            | Some opp \<Rightarrow> opp # analyze_markets self now ev rest)
      else analyze_markets self now ev rest)"

definition analyze_event_for_arbitrage ::
    "arbitrage_detector \<Rightarrow> rat \<Rightarrow> event \<Rightarrow> odds_snapshot list \<Rightarrow> opportunity list" where
  "analyze_event_for_arbitrage self now ev snapshot_table =
     (let odds_snapshots = fresh_snapshots now ev snapshot_table
      in if length odds_snapshots < 2 then []
         else analyze_markets self now ev (group_snapshots odds_snapshots []))"

subsection \<open>Deduplicator and persister\<close>

text \<open>
  A row of \<^verbatim>\<open>ArbitrageOpportunity\<close>: the fields of the opportunity dictionary and the
  columns the store adds. The primary key (a fresh \<^verbatim>\<open>uuid4\<close>) takes no part in any
  query below and is left out. The table is the list of its rows.
\<close>

record arbitrage_row = opportunity +
  status :: string
  detected_at :: datetime
  ai_score :: "rat option"
  ai_analysis :: "string option"
  executed_at :: "datetime option"

text \<open>
  The \<^verbatim>\<open>ArbitrageOpportunity\<close> built from \<^verbatim>\<open>opp_data\<close>, once inserted: \<open>status\<close>
  takes its default and \<open>detected_at\<close> the server's clock.
\<close>

definition new_row :: "rat \<Rightarrow> opportunity \<Rightarrow> arbitrage_row" where
  "new_row now opp =
     \<lparr> event_id = event_id opp, market_type = market_type opp,
       profit_percentage = profit_percentage opp, total_stake = total_stake opp,
       expected_profit = expected_profit opp, bookmaker_stakes = bookmaker_stakes opp,
       bookmaker_odds = bookmaker_odds opp, risk_score = risk_score opp,
       expires_at = expires_at opp,
       status = ''detected'', detected_at = Aware now,
       ai_score = None, ai_analysis = None, executed_at = None \<rparr>"

text \<open>The \<^verbatim>\<open>where\<close> clause of the duplicate check.\<close>

definition is_duplicate :: "rat \<Rightarrow> opportunity \<Rightarrow> arbitrage_row \<Rightarrow> bool" where
  "is_duplicate now opp r \<longleftrightarrow>
     event_id r = event_id opp \<and> market_type r = market_type opp \<and>
     status r \<in> set [''detected'', ''analyzed''] \<and>
     now - 3600 < instant (detected_at r)"

fun scalar_one_or_none :: "'a list \<Rightarrow> py_error + 'a option" where
  "scalar_one_or_none [] = Inr None"
| "scalar_one_or_none [x] = Inr (Some x)"
| "scalar_one_or_none (x # y # _) = Inl MultipleResultsFound"

text \<open>
  The loop of \<^verbatim>\<open>_store_opportunities\<close>. \<open>pending\<close> holds the rows added to the session
  and not yet committed. The session factory is configured outside the files at hand;
  \<open>autoflush\<close> is its setting: when it is on, a query also sees the pending rows.
\<close>

fun store_loop :: "bool \<Rightarrow> rat \<Rightarrow> arbitrage_row list \<Rightarrow> opportunity list \<Rightarrow>
    arbitrage_row list \<Rightarrow> py_error + arbitrage_row list" where
  "store_loop autoflush now db [] pending = Inr pending"
| "store_loop autoflush now db (opp_data # rest) pending =
     (case scalar_one_or_none
             (filter (is_duplicate now opp_data) (db @ (if autoflush then pending else []))) of
        Inl e \<Rightarrow> Inl e
      | Inr (Some existing) \<Rightarrow> store_loop autoflush now db rest pending
      | Inr None \<Rightarrow> store_loop autoflush now db rest (pending @ [new_row now opp_data]))"

text \<open>
  \<^verbatim>\<open>_store_opportunities\<close>: the table after the call, and the exception it re-raises
  after the rollback, if any.
\<close>

definition store_opportunities :: "bool \<Rightarrow> rat \<Rightarrow> arbitrage_row list \<Rightarrow> opportunity list \<Rightarrow>
    arbitrage_row list \<times> py_error option" where
  "store_opportunities autoflush now db opportunities =
     (case store_loop autoflush now db opportunities [] of
        Inl e \<Rightarrow> (db, Some e)
      | Inr pending \<Rightarrow> (db @ pending, None))"

subsection \<open>Cleanup sweep\<close>

text \<open>
  The \<^verbatim>\<open>UPDATE\<close> of \<^verbatim>\<open>_cleanup_expired_opportunities\<close>; a row whose \<open>expires_at\<close> is
  \<^verbatim>\<open>NULL\<close> does not satisfy the comparison.
\<close>

definition cleanup_expired_opportunities :: "rat \<Rightarrow> arbitrage_row list \<Rightarrow> arbitrage_row list" where
  "cleanup_expired_opportunities now db =
     map (\<lambda>r. if (case expires_at r of None \<Rightarrow> False | Some t \<Rightarrow> instant t \<le> now) \<and>
                  status r \<in> set [''detected'', ''analyzed'']
               then r\<lparr>status := ''expired''\<rparr> else r) db"

subsection \<open>Stake allocator\<close>

text \<open>The estimate of the true probability of one leg (\<^verbatim>\<open>implied_prob\<close>, \<^verbatim>\<open>true_prob\<close>).\<close>

definition kelly_true_prob :: "rat \<Rightarrow> rat" where
  "kelly_true_prob p =
     (let implied_prob = 1 / p;
          true_prob = implied_prob * (105 / 100)
      in if 1 < true_prob then 95 / 100 else true_prob)"

record kelly_result =
  kelly_stakes :: "rat dict"
  total_kelly_stake :: rat
  bankroll_percentage :: rat

text \<open>One leg: the body of the inner loop, on the running total and the stakes so far.\<close>

definition kelly_leg :: "arbitrage_detector \<Rightarrow> rat \<Rightarrow> string \<Rightarrow> string \<Rightarrow> rat \<Rightarrow>
    rat \<times> rat dict \<Rightarrow> py_error + rat \<times> rat dict" where
  "kelly_leg self bankroll bm outcome p acc =
     (if p = 0 then Inl ZeroDivisionError
      else
        let true_prob = kelly_true_prob p;
            b = p - 1
        in if b = 0 then Inl ZeroDivisionError
           else
             let f = (b * true_prob - (1 - true_prob)) / b;
                 f' = f * kelly_fraction self
             in if 0 < f'
                then let stake = bankroll * f' * (max_stake_percentage self / 100)
                     in Inr (fst acc + stake,
                             dict_set (bm @ ''_'' @ outcome) (max stake 10) (snd acc))
                else Inr acc)"

fun kelly_outcomes :: "arbitrage_detector \<Rightarrow> rat \<Rightarrow> string \<Rightarrow> rat dict \<Rightarrow>
    rat \<times> rat dict \<Rightarrow> py_error + rat \<times> rat dict" where
  "kelly_outcomes self bankroll bm [] acc = Inr acc"
| "kelly_outcomes self bankroll bm ((outcome, p) # rest) acc =
     (case kelly_leg self bankroll bm outcome p acc of
        Inl e \<Rightarrow> Inl e
      | Inr acc' \<Rightarrow> kelly_outcomes self bankroll bm rest acc')"

fun kelly_bookmakers :: "arbitrage_detector \<Rightarrow> rat \<Rightarrow> rat dict dict \<Rightarrow>
    rat \<times> rat dict \<Rightarrow> py_error + rat \<times> rat dict" where
  "kelly_bookmakers self bankroll [] acc = Inr acc"
| "kelly_bookmakers self bankroll ((bm, outcomes) # rest) acc =
     (case kelly_outcomes self bankroll bm outcomes acc of
        Inl e \<Rightarrow> Inl e
      | Inr acc' \<Rightarrow> kelly_bookmakers self bankroll rest acc')"

text \<open>\<^verbatim>\<open>calculate_kelly_stakes\<close>, with the empty answer of its \<^verbatim>\<open>except\<close> clause.\<close>

definition calculate_kelly_stakes :: "arbitrage_detector \<Rightarrow> opportunity \<Rightarrow> rat \<Rightarrow> kelly_result" where
  "calculate_kelly_stakes self opp bankroll =
     (case kelly_bookmakers self bankroll (bookmaker_odds opp) (0, []) of
        Inl e \<Rightarrow> \<lparr> kelly_stakes = [], total_kelly_stake = 0, bankroll_percentage = 0 \<rparr>
      | Inr (total_stk, stakes) \<Rightarrow>
          if bankroll = 0
          then \<lparr> kelly_stakes = [], total_kelly_stake = 0, bankroll_percentage = 0 \<rparr>
          else \<lparr> kelly_stakes = stakes, total_kelly_stake = total_stk,
                 bankroll_percentage = (total_stk / bankroll) * 100 \<rparr>)"

subsection \<open>Binary floating point\<close>

text \<open>
  The exponent of the binade of a nonzero number: the \<open>e\<close> with
  \<open>2 powi e \<le> \<bar>x\<bar> < 2 powi (e + 1)\<close>.
\<close>

definition float_exponent :: "rat \<Rightarrow> int" where
  "float_exponent x =
     (if 1 \<le> \<bar>x\<bar> then bitlen \<lfloor>\<bar>x\<bar>\<rfloor> - 1 else - bitlen (\<lceil>1 / \<bar>x\<bar>\<rceil> - 1))"

text \<open>
  The binary64 number nearest to \<open>x\<close>, a tie going to the even significand: 53
  significant bits. The exponent range is not bounded (no overflow, no underflow).
\<close>

definition fl :: "rat \<Rightarrow> rat" where
  "fl x =
     (if x = 0 then 0
      else let ulp = 2 powi (float_exponent x - 52)
           in of_int (round_half_even (x / ulp)) * ulp)"

text \<open>
  \<^verbatim>\<open>sum(values)\<close> on floats: added left to right from 0, each addition rounded. (CPython
  from 3.12 on compensates the sum; on the markets evaluated below both give the same
  total, in every order of the terms.)
\<close>

definition float_sum :: "rat list \<Rightarrow> rat" where
  "float_sum xs = foldl (\<lambda>s x. fl (s + x)) 0 xs"

text \<open>
  \<^verbatim>\<open>round(x, 2)\<close> on a float: the exact value of \<open>x\<close> rounded to two decimals, and the
  binary64 number nearest to that decimal.
\<close>

definition float_round2 :: "rat \<Rightarrow> rat" where
  "float_round2 x = fl (py_round2 x)"

text \<open>
  \<^verbatim>\<open>_calculate_arbitrage\<close> with every arithmetic operation of lines 145 to 174 rounded
  as the code rounds it. The loops that choose the best prices and that organise the
  result compare and copy values and are the ones of the exact calculator.
\<close>

definition calculate_arbitrage_float ::
    "arbitrage_detector \<Rightarrow> rat \<Rightarrow> event \<Rightarrow> string \<Rightarrow> market_data \<Rightarrow> opportunity option" where
  "calculate_arbitrage_float self now ev mt md =
     (let all_outcomes = all_outcomes_of md in
      if length all_outcomes < 2 then None
      else
        let (best_odds, best_bookmakers) = find_best md all_outcomes ([], []) in
        if length best_odds \<noteq> length all_outcomes then None
        else if 0 \<in> set (dict_values best_odds) then None
        else
          let implied_probabilities = map (\<lambda>(outcome, p). (outcome, fl (1 / p))) best_odds;
              total_implied_probability = float_sum (dict_values implied_probabilities) in
          if 1 \<le> total_implied_probability then None
          else if total_implied_probability = 0 then None
          else
            let profit = fl (fl (fl (1 - total_implied_probability) / total_implied_probability) * 100) in
            if profit < min_profit_percentage self then None
            else
              let total_stk = 1000;
                  stakes = map (\<lambda>(outcome, probability).
                             (outcome, float_round2
                                (fl (fl (probability / total_implied_probability) * total_stk))))
                             implied_probabilities;
                  expected = fl (total_stk * fl (profit / 100))
              in case organize all_outcomes best_bookmakers stakes best_odds ([], []) of
                   None \<Rightarrow> None
                 | Some (bstakes, bodds) \<Rightarrow>
                     Some \<lparr> event_id = ev_id ev,
                            market_type = mt,
                            profit_percentage = float_round2 profit,
                            total_stake = total_stk,
                            expected_profit = float_round2 expected,
                            bookmaker_stakes = bstakes,
                            bookmaker_odds = bodds,
                            risk_score = calculate_risk_score now ev md,
                            expires_at = Some (Naive (now + 900)) \<rparr>)"

subsection \<open>Quantities the properties speak about\<close>

text \<open>
  The best price offered for an outcome: the maximum over the bookmakers of the price
  each one quotes, a missing quote counting as 0 (as \<^verbatim>\<open>.get(outcome, 0)\<close> does).
\<close>

definition best_price :: "market_data \<Rightarrow> string \<Rightarrow> rat" where
  "best_price md outcome = Max (set (0 # map (\<lambda>d. price_of d outcome) (dict_values md)))"

text \<open>
  The sum of the best-price implied probabilities over the outcomes of the market. An
  outcome nobody quotes at a positive price contributes nothing (\<open>1 / 0 = 0\<close> in HOL).
\<close>

definition total_implied :: "market_data \<Rightarrow> rat" where
  "total_implied md = (\<Sum>outcome \<leftarrow> all_outcomes_of md. 1 / best_price md outcome)"

text \<open>The bookmaker the inner loop ends with, for an outcome somebody quotes.\<close>

definition best_bookmaker_of :: "market_data \<Rightarrow> string \<Rightarrow> string" where
  "best_bookmaker_of md outcome =
     (case best_for outcome md None of None \<Rightarrow> [] | Some (_, bm) \<Rightarrow> bm)"

text \<open>The first bookmaker, in the iteration order of the mapping, that quotes the best price.\<close>

definition first_best_bookmaker :: "market_data \<Rightarrow> string \<Rightarrow> string option" where
  "first_best_bookmaker md outcome =
     map_option fst (find (\<lambda>(bm, d). price_of d outcome = best_price md outcome) md)"

text \<open>The bookmakers quoting the best price for an outcome.\<close>

definition best_price_bookmakers :: "market_data \<Rightarrow> string \<Rightarrow> string list" where
  "best_price_bookmakers md outcome =
     map fst (filter (\<lambda>(bm, d). price_of d outcome = best_price md outcome) md)"

fun cur_odd :: "(rat \<times> string) option \<Rightarrow> rat" where
  "cur_odd None = 0"
| "cur_odd (Some (p, _)) = p"

text \<open>The sum of \<open>f v\<close> over all values \<open>v\<close> of a bookmaker-to-outcome-to-value mapping.\<close>

definition nested_sum :: "(rat \<Rightarrow> rat) \<Rightarrow> rat dict dict \<Rightarrow> rat" where
  "nested_sum f d = (\<Sum>inner \<leftarrow> dict_values d. \<Sum>v \<leftarrow> dict_values inner. f v)"

text \<open>\<^verbatim>\<open>d[bm][outcome]\<close>, \<open>None\<close> when either key is missing.\<close>

definition lookup2 :: "rat dict dict \<Rightarrow> string \<Rightarrow> string \<Rightarrow> rat option" where
  "lookup2 d bm outcome =
     (case dict_get d bm of None \<Rightarrow> None | Some inner \<Rightarrow> dict_get inner outcome)"

definition inner_keys :: "rat dict dict \<Rightarrow> string set" where
  "inner_keys d = (\<Union>inner \<in> set (dict_values d). set (dict_keys inner))"

text \<open>
  The bookmakers contributing to market \<open>mt\<close> of an event: those with an active, fresh
  snapshot of the event that quotes the market.
\<close>

definition contributing_bookmakers :: "rat \<Rightarrow> event \<Rightarrow> odds_snapshot list \<Rightarrow> string \<Rightarrow> string set" where
  "contributing_bookmakers now ev snapshot_table mt =
     bookmaker ` set (filter (\<lambda>s. is_fresh now ev s \<and> mt \<in> set (dict_keys (odds_data s)))
                        snapshot_table)"

text \<open>
  The implied probability of a price, the total recomputed from the odds an opportunity
  reports, the profit percentage that total gives, and the sum of the stakes an
  opportunity reports.
\<close>

definition implied_probability :: "rat \<Rightarrow> rat" where
  "implied_probability p = 1 / p"

definition recomputed_total_implied :: "opportunity \<Rightarrow> rat" where
  "recomputed_total_implied opp = nested_sum implied_probability (bookmaker_odds opp)"

definition recomputed_profit :: "opportunity \<Rightarrow> rat" where
  "recomputed_profit opp = (1 / recomputed_total_implied opp - 1) * 100"

definition stake_sum :: "opportunity \<Rightarrow> rat" where
  "stake_sum opp = nested_sum (\<lambda>s. s) (bookmaker_stakes opp)"

subsection \<open>Example inputs\<close>

text \<open>The defaults of \<^verbatim>\<open>app/core/config.py\<close>.\<close>

definition default_settings :: arbitrage_detector where
  "default_settings = \<lparr> min_profit_percentage = 2, max_stake_percentage = 10, kelly_fraction = 1 / 4 \<rparr>"

definition example_event :: event where
  "example_event = \<lparr> ev_id = 7, sport = ''soccer'', commence_time = Naive 100000 \<rparr>"

definition two_way_market :: market_data where
  "two_way_market =
     [(''bet365'', \<lparr> odds = [(''home'', 21 / 10), (''away'', 2)], timestamp = Naive 0 \<rparr>),
      (''pinnacle'', \<lparr> odds = [(''home'', 2), (''away'', 11 / 5)], timestamp = Naive 0 \<rparr>)]"

definition five_way_market :: market_data where
  "five_way_market =
     [(''bet365'', \<lparr> odds = [(''r1'', 8), (''r2'', 13 / 5), (''r3'', 77 / 10), (''r4'', 7), (''r5'', 7)],
                     timestamp = Naive 0 \<rparr>),
      (''pinnacle'', \<lparr> odds = [(''r1'', 15 / 2), (''r2'', 5 / 2), (''r3'', 15 / 2), (''r4'', 73 / 10), (''r5'', 73 / 10)],
                     timestamp = Naive 0 \<rparr>)]"

definition tie_market :: market_data where
  "tie_market =
     [(''pinnacle'', \<lparr> odds = [(''home'', 21 / 10), (''away'', 2)], timestamp = Naive 0 \<rparr>),
      (''bet365'', \<lparr> odds = [(''home'', 21 / 10), (''away'', 11 / 5)], timestamp = Naive 0 \<rparr>)]"

text \<open>What the calculator answers on these markets (proved below).\<close>

definition two_way_opportunity :: opportunity where
  "two_way_opportunity =
     \<lparr> event_id = 7, market_type = ''h2h'', profit_percentage = 186 / 25,
       total_stake = 1000, expected_profit = 3721 / 50,
       bookmaker_stakes = [(''bet365'', [(''home'', 51163 / 100)]),
                           (''pinnacle'', [(''away'', 48837 / 100)])],
       bookmaker_odds = [(''bet365'', [(''home'', 21 / 10)]), (''pinnacle'', [(''away'', 11 / 5)])],
       risk_score = 6, expires_at = Some (Naive 1000) \<rparr>"

definition five_way_opportunity :: opportunity where
  "five_way_opportunity =
     \<lparr> event_id = 7, market_type = ''outright'', profit_percentage = 947 / 100,
       total_stake = 1000, expected_profit = 4737 / 50,
       bookmaker_stakes =
         [(''bet365'', [(''r1'', 3421 / 25), (''r2'', 8421 / 20), (''r3'', 14217 / 100)]),
          (''pinnacle'', [(''r4'', 3749 / 25), (''r5'', 3749 / 25)])],
       bookmaker_odds =
         [(''bet365'', [(''r1'', 8), (''r2'', 13 / 5), (''r3'', 77 / 10)]),
          (''pinnacle'', [(''r4'', 73 / 10), (''r5'', 73 / 10)])],
       risk_score = 6, expires_at = Some (Naive 1000) \<rparr>"

definition tie_opportunity :: opportunity where
  "tie_opportunity =
     \<lparr> event_id = 7, market_type = ''h2h'', profit_percentage = 186 / 25,
       total_stake = 1000, expected_profit = 3721 / 50,
       bookmaker_stakes = [(''pinnacle'', [(''home'', 51163 / 100)]),
                           (''bet365'', [(''away'', 48837 / 100)])],
       bookmaker_odds = [(''pinnacle'', [(''home'', 21 / 10)]), (''bet365'', [(''away'', 11 / 5)])],
       risk_score = 6, expires_at = Some (Naive 1000) \<rparr>"

text \<open>
  A snapshot table: two fresh snapshots of event 7, a stale one, and one of another
  event. Only \<open>bet365\<close> contributes to the \<open>totals\<close> market of event 7.
\<close>

definition example_snapshots :: "odds_snapshot list" where
  "example_snapshots =
     [\<lparr> snap_event_id = 7, bookmaker = ''bet365'',
        odds_data = [(''h2h'', [(''home'', 21 / 10), (''away'', 2)]),
                     (''totals'', [(''over'', 21 / 10), (''under'', 2)])],
        captured_at = Naive 0, is_active = True \<rparr>,
      \<lparr> snap_event_id = 7, bookmaker = ''pinnacle'',
        odds_data = [(''h2h'', [(''home'', 2), (''away'', 11 / 5)])],
        captured_at = Naive 0, is_active = True \<rparr>,
      \<lparr> snap_event_id = 7, bookmaker = ''pinnacle'',
        odds_data = [(''totals'', [(''over'', 2), (''under'', 11 / 5)])],
        captured_at = Naive (- 5000), is_active = True \<rparr>,
      \<lparr> snap_event_id = 8, bookmaker = ''betfair'',
        odds_data = [(''totals'', [(''over'', 2), (''under'', 11 / 5)])],
        captured_at = Naive 0, is_active = True \<rparr>]"

text \<open>
  An opportunity table: a detected row that has expired, an executed row and an
  analyzed row that has not expired yet.
\<close>

definition example_rows :: "arbitrage_row list" where
  "example_rows =
     [new_row 50 two_way_opportunity,
      (new_row 50 two_way_opportunity)\<lparr>status := ''executed''\<rparr>,
      (new_row 50 five_way_opportunity)\<lparr>status := ''analyzed'', expires_at := Some (Naive 3000)\<rparr>]"

section \<open>Properties\<close>

subsection \<open>Dictionaries\<close>

lemma dict_get_set: "dict_get (dict_set k v d) k' = (if k' = k then Some v else dict_get d k')"
  by (induction d) (auto simp: dict_get_def)

lemma dict_get_None: "dict_get d k = None \<longleftrightarrow> k \<notin> set (dict_keys d)"
  by (simp add: dict_get_def dict_keys_def map_of_eq_None_iff)

lemma dict_get_map: "dict_get (map (\<lambda>k. (k, F k)) ks) k = (if k \<in> set ks then Some (F k) else None)"
  by (induction ks) (auto simp: dict_get_def)

lemma dict_keys_map: "dict_keys (map (\<lambda>k. (k, F k)) ks) = ks"
  by (induction ks) (auto simp: dict_keys_def)

lemma sum_dict_set:
  "dict_get d k = Some x \<Longrightarrow>
   (\<Sum>y \<leftarrow> dict_values (dict_set k x' d). F y) = (\<Sum>y \<leftarrow> dict_values d. F y) - F x + (F x' :: rat)"
  by (induction d) (auto simp: dict_get_def dict_values_def)

lemma set_dict_set: "set (dict_set k v d) \<subseteq> insert (k, v) (set d)"
  by (induction d) (auto split: if_splits)

lemma inner_keys_dict_set:
  "inner_keys (dict_set k x' d) \<subseteq> inner_keys d \<union> set (dict_keys x')"
  using set_dict_set[of k x' d] by (fastforce simp: dict_values_def inner_keys_def)

lemma dict_keys_set:
  "dict_keys (dict_set k v d) = (if k \<in> set (dict_keys d) then dict_keys d else dict_keys d @ [k])"
  by (induction d) (fastforce simp: dict_keys_def)+

lemma nested_set_keys: "nested_set bm oc v d = Some d' \<Longrightarrow> dict_keys d' = dict_keys d"
  using dict_get_None[of d bm] by (auto simp: nested_set_def dict_keys_set split: option.splits)

lemma inner_keys_get:
  "dict_get d k = Some x \<Longrightarrow> set (dict_keys x) \<subseteq> inner_keys d"
proof -
  assume "dict_get d k = Some x"
  then have "(k, x) \<in> set d" by (simp add: dict_get_def map_of_SomeD)
  then have "x \<in> set (dict_values d)" by (force simp: dict_values_def)
  then show ?thesis by (auto simp: inner_keys_def)
qed

lemma dict_set_new: "k \<notin> set (dict_keys d) \<Longrightarrow> dict_set k v d = d @ [(k, v)]"
  by (induction d) (auto simp: dict_keys_def)

lemma nested_sum_new: "bm \<notin> set (dict_keys d) \<Longrightarrow> nested_sum f (dict_set bm [] d) = nested_sum f d"
  by (simp add: dict_set_new nested_sum_def dict_values_def)

lemma inner_keys_new: "bm \<notin> set (dict_keys d) \<Longrightarrow> inner_keys (dict_set bm [] d) = inner_keys d"
  by (simp add: dict_set_new inner_keys_def dict_values_def dict_keys_def)

lemma lookup2_new: "bm \<notin> set (dict_keys d) \<Longrightarrow> lookup2 (dict_set bm [] d) b oc = lookup2 d b oc"
  using dict_get_None[of d bm] by (auto simp: lookup2_def dict_get_set) (simp add: dict_get_def)

lemma nested_set_sum:
  assumes "nested_set bm oc v d = Some d'" and "oc \<notin> inner_keys d"
  shows "nested_sum f d' = nested_sum f d + f v" and "inner_keys d' \<subseteq> insert oc (inner_keys d)"
proof -
  from assms(1) obtain inner where g: "dict_get d bm = Some inner"
    and d': "d' = dict_set bm (dict_set oc v inner) d"
    by (auto simp: nested_set_def split: option.splits)
  have "oc \<notin> set (dict_keys inner)" using inner_keys_get[OF g] assms(2) by auto
  then have app: "dict_set oc v inner = inner @ [(oc, v)]" by (rule dict_set_new)
  have "nested_sum f d' = nested_sum f d - (\<Sum>y \<leftarrow> dict_values inner. f y) + (\<Sum>y \<leftarrow> dict_values (inner @ [(oc, v)]). f y)"
    unfolding nested_sum_def d' app using sum_dict_set[OF g, of "\<lambda>i. \<Sum>y \<leftarrow> dict_values i. f y"] by simp
  then show "nested_sum f d' = nested_sum f d + f v" by (simp add: dict_values_def)
  have "inner_keys d' \<subseteq> inner_keys d \<union> set (dict_keys (inner @ [(oc, v)]))"
    unfolding d' app by (rule inner_keys_dict_set)
  then show "inner_keys d' \<subseteq> insert oc (inner_keys d)"
    using inner_keys_get[OF g] by (auto simp: dict_keys_def)
qed

lemma nested_set_lookup2:
  assumes "nested_set bm oc v d = Some d'"
  shows "lookup2 d' b o' = (if b = bm \<and> o' = oc then Some v else lookup2 d b o')"
proof -
  from assms(1) obtain inner where g: "dict_get d bm = Some inner"
    and d': "d' = dict_set bm (dict_set oc v inner) d"
    by (auto simp: nested_set_def split: option.splits)
  show ?thesis unfolding d' lookup2_def using g by (simp add: dict_get_set)
qed

subsection \<open>The best price and the bookmaker offering it\<close>

lemma best_for_cur:
  "cur_odd (best_for outcome md best) = fold max (map (\<lambda>d. price_of d outcome) (dict_values md)) (cur_odd best)"
proof (induction md arbitrary: best)
  case Nil
  then show ?case by (simp add: dict_values_def)
next
  case (Cons a md)
  obtain bm d where a: "a = (bm, d)" by (cases a)
  show ?case
  proof (cases best)
    case None
    then show ?thesis using Cons[of "Some (price_of d outcome, bm)"] Cons[of None] a
      by (simp add: dict_values_def max_def)
  next
    case (Some pb)
    obtain p b where "pb = (p, b)" by (cases pb)
    then show ?thesis using Some Cons[of "Some (price_of d outcome, bm)"] Cons[of best] a
      by (simp add: dict_values_def max_def)
  qed
qed

lemma best_for_pos:
  "0 \<le> cur_odd best \<Longrightarrow> (best = None \<longleftrightarrow> cur_odd best = 0) \<Longrightarrow>
   (best_for outcome md best = None \<longleftrightarrow> cur_odd (best_for outcome md best) = 0) \<and> 0 \<le> cur_odd (best_for outcome md best)"
proof (induction md arbitrary: best)
  case Nil
  then show ?case by simp
next
  case (Cons a md)
  obtain bm d where a: "a = (bm, d)" by (cases a)
  show ?case
  proof (cases "cur_odd best < price_of d outcome")
    case True
    have "best_for outcome (a # md) best = best_for outcome md (Some (price_of d outcome, bm))"
      using True a by (cases best) auto
    moreover have "0 \<le> cur_odd (Some (price_of d outcome, bm))" using True Cons.prems by simp
    moreover have "(Some (price_of d outcome, bm) = None) \<longleftrightarrow> cur_odd (Some (price_of d outcome, bm)) = 0"
      using True Cons.prems by simp
    ultimately show ?thesis using Cons.IH[of "Some (price_of d outcome, bm)"] by simp
  next
    case False
    have "best_for outcome (a # md) best = best_for outcome md best"
      using False a by (cases best) auto
    then show ?thesis using Cons.IH[of best] Cons.prems by simp
  qed
qed

lemma best_price_fold: "best_price md outcome = fold max (map (\<lambda>d. price_of d outcome) (dict_values md)) 0"
  unfolding best_price_def by (rule Max.set_eq_fold)

lemma best_for_None: "best_for outcome md None = None \<longleftrightarrow> best_price md outcome = 0"
  using best_for_pos[of None outcome md] best_for_cur[of outcome md None] by (simp add: best_price_fold)

lemma best_price_nonneg: "0 \<le> best_price md outcome"
  using best_for_pos[of None outcome md] best_for_cur[of outcome md None] by (simp add: best_price_fold)

lemma best_for_Some: "best_for outcome md None = Some (p, bm) \<Longrightarrow> p = best_price md outcome \<and> 0 < p \<and> bm = best_bookmaker_of md outcome"
  using best_for_pos[of None outcome md] best_for_cur[of outcome md None]
  by (auto simp add: best_price_fold best_bookmaker_of_def)

lemma find_best_char:
  "distinct ocs \<Longrightarrow> set ocs \<inter> set (dict_keys bo) = {} \<Longrightarrow> set ocs \<inter> set (dict_keys bb) = {} \<Longrightarrow>
   find_best md ocs (bo, bb) =
     (bo @ map (\<lambda>oc. (oc, best_price md oc)) (filter (\<lambda>oc. 0 < best_price md oc) ocs),
      bb @ map (\<lambda>oc. (oc, best_bookmaker_of md oc)) (filter (\<lambda>oc. 0 < best_price md oc) ocs))"
proof (induction ocs arbitrary: bo bb)
  case Nil
  then show ?case by simp
next
  case (Cons oc ocs)
  show ?case
  proof (cases "best_for oc md None")
    case None
    then have "best_price md oc = 0" by (simp add: best_for_None)
    then show ?thesis using None Cons by simp
  next
    case (Some pb)
    obtain p bm where pb: "pb = (p, bm)" by (cases pb)
    have f: "p = best_price md oc" "0 < p" "bm = best_bookmaker_of md oc"
      using best_for_Some Some pb by auto
    have n1: "oc \<notin> set (dict_keys bo)" and n2: "oc \<notin> set (dict_keys bb)" using Cons.prems by auto
    have s1: "dict_set oc p bo = bo @ [(oc, p)]" using n1 by (rule dict_set_new)
    have s2: "dict_set oc bm bb = bb @ [(oc, bm)]" using n2 by (rule dict_set_new)
    have d1: "set ocs \<inter> set (dict_keys (bo @ [(oc, p)])) = {}"
      using Cons.prems by (auto simp: dict_keys_def)
    have d2: "set ocs \<inter> set (dict_keys (bb @ [(oc, bm)])) = {}"
      using Cons.prems by (auto simp: dict_keys_def)
    have "distinct ocs" using Cons.prems by simp
    from Cons.IH[OF this d1 d2] show ?thesis using Some pb f s1 s2 by simp
  qed
qed

subsection \<open>The opportunity the calculator returns\<close>

lemma organize_sums:
  "organize ocs bb st bo (bs, bod) = Some (bs', bod') \<Longrightarrow> distinct ocs \<Longrightarrow>
   dict_keys bs = dict_keys bod \<Longrightarrow>
   set ocs \<inter> inner_keys bs = {} \<Longrightarrow> set ocs \<inter> inner_keys bod = {} \<Longrightarrow>
   nested_sum f bs' = nested_sum f bs + (\<Sum>oc \<leftarrow> ocs. f (the (dict_get st oc))) \<and>
   nested_sum g bod' = nested_sum g bod + (\<Sum>oc \<leftarrow> ocs. g (the (dict_get bo oc)))"
proof (induction ocs arbitrary: bs bod)
  case Nil
  then show ?case by simp
next
  case (Cons oc ocs)
  from Cons.prems(1) obtain bm s p bs2 bod2 where
    bm: "dict_get bb oc = Some bm" and s: "dict_get st oc = Some s" and p: "dict_get bo oc = Some p"
    and n1: "nested_set bm oc s (if bm \<notin> set (dict_keys bs) then dict_set bm [] bs else bs) = Some bs2"
    and n2: "nested_set bm oc p (if bm \<notin> set (dict_keys bs) then dict_set bm [] bod else bod) = Some bod2"
    and rest: "organize ocs bb st bo (bs2, bod2) = Some (bs', bod')"
    by (auto split: option.splits if_splits)
  let ?bs1 = "if bm \<notin> set (dict_keys bs) then dict_set bm [] bs else bs"
  let ?bod1 = "if bm \<notin> set (dict_keys bs) then dict_set bm [] bod else bod"
  have k1: "dict_keys ?bs1 = dict_keys ?bod1"
    using Cons.prems(3) by (simp add: dict_keys_set)
  have su1: "nested_sum f ?bs1 = nested_sum f bs" by (simp add: nested_sum_new)
  have su2: "nested_sum g ?bod1 = nested_sum g bod"
    using Cons.prems(3) by (simp add: nested_sum_new)
  have ik1: "inner_keys ?bs1 = inner_keys bs" by (simp add: inner_keys_new)
  have ik2: "inner_keys ?bod1 = inner_keys bod"
    using Cons.prems(3) by (simp add: inner_keys_new)
  have o1: "oc \<notin> inner_keys ?bs1" using Cons.prems(4) ik1 by auto
  have o2: "oc \<notin> inner_keys ?bod1" using Cons.prems(5) ik2 by auto
  note r1 = nested_set_sum[OF n1 o1] and r2 = nested_set_sum[OF n2 o2]
  have k2: "dict_keys bs2 = dict_keys bod2"
    using nested_set_keys[OF n1] nested_set_keys[OF n2] k1 by simp
  have d: "distinct ocs" and nin: "oc \<notin> set ocs" using Cons.prems(2) by auto
  have i1: "set ocs \<inter> inner_keys bs2 = {}"
    using r1(2) ik1 Cons.prems(4) nin by auto
  have i2: "set ocs \<inter> inner_keys bod2 = {}"
    using r2(2) ik2 Cons.prems(5) nin by auto
  from Cons.IH[OF rest d k2 i1 i2] show ?case
    using r1(1)[of f] r2(1)[of g] su1 su2 s p by simp
qed

lemma organize_lookup2:
  "organize ocs bb st bo (bs, bod) = Some (bs', bod') \<Longrightarrow>
   dict_keys bs = dict_keys bod \<Longrightarrow>
   lookup2 bod' b o' =
     (if o' \<in> set ocs \<and> dict_get bb o' = Some b then dict_get bo o' else lookup2 bod b o')"
proof (induction ocs arbitrary: bs bod)
  case Nil
  then show ?case by simp
next
  case (Cons oc ocs)
  from Cons.prems(1) obtain bm s p bs2 bod2 where
    bm: "dict_get bb oc = Some bm" and s: "dict_get st oc = Some s" and p: "dict_get bo oc = Some p"
    and n1: "nested_set bm oc s (if bm \<notin> set (dict_keys bs) then dict_set bm [] bs else bs) = Some bs2"
    and n2: "nested_set bm oc p (if bm \<notin> set (dict_keys bs) then dict_set bm [] bod else bod) = Some bod2"
    and rest: "organize ocs bb st bo (bs2, bod2) = Some (bs', bod')"
    by (auto split: option.splits if_splits)
  let ?bs1 = "if bm \<notin> set (dict_keys bs) then dict_set bm [] bs else bs"
  let ?bod1 = "if bm \<notin> set (dict_keys bs) then dict_set bm [] bod else bod"
  have k1: "dict_keys ?bs1 = dict_keys ?bod1"
    using Cons.prems(2) by (simp add: dict_keys_set)
  have k2: "dict_keys bs2 = dict_keys bod2"
    using nested_set_keys[OF n1] nested_set_keys[OF n2] k1 by simp
  have l1: "lookup2 ?bod1 b o' = lookup2 bod b o'"
    using Cons.prems(2) by (simp add: lookup2_new)
  have l2: "lookup2 bod2 b o' = (if b = bm \<and> o' = oc then Some p else lookup2 bod b o')"
    using nested_set_lookup2[OF n2, of b o'] l1 by simp
  from Cons.IH[OF rest k2] show ?case using l2 bm p by auto
qed

lemma filter_length_all: "length (filter P xs) = length xs \<Longrightarrow> filter P xs = xs"
proof (induction xs)
  case Nil
  then show ?case by simp
next
  case (Cons x xs)
  have le: "length (filter P xs) \<le> length xs" by (rule length_filter_le)
  show ?case
  proof (cases "P x")
    case True
    then show ?thesis using Cons by simp
  next
    case False
    then show ?thesis using Cons.prems le by simp
  qed
qed

lemma calculate_arbitrage_Some:
  assumes "calculate_arbitrage self now ev mt md = Some opp"
  shows "\<exists>bstakes bodds.
     2 \<le> length (all_outcomes_of md) \<and>
     (\<forall>oc \<in> set (all_outcomes_of md). 0 < best_price md oc) \<and>
     total_implied md < 1 \<and> total_implied md \<noteq> 0 \<and>
     min_profit_percentage self \<le> (1 - total_implied md) / total_implied md * 100 \<and>
     organize (all_outcomes_of md)
       (map (\<lambda>oc. (oc, best_bookmaker_of md oc)) (all_outcomes_of md))
       (map (\<lambda>oc. (oc, py_round2 (1 / best_price md oc / total_implied md * 1000))) (all_outcomes_of md))
       (map (\<lambda>oc. (oc, best_price md oc)) (all_outcomes_of md)) ([], []) = Some (bstakes, bodds) \<and>
     opp = \<lparr> event_id = ev_id ev, market_type = mt,
             profit_percentage = py_round2 ((1 - total_implied md) / total_implied md * 100),
             total_stake = 1000,
             expected_profit = py_round2 (1000 * ((1 - total_implied md) / total_implied md * 100 / 100)),
             bookmaker_stakes = bstakes, bookmaker_odds = bodds,
             risk_score = calculate_risk_score now ev md,
             expires_at = Some (Naive (now + 900)) \<rparr>"
proof -
  let ?ocs = "all_outcomes_of md"
  let ?pos = "\<lambda>oc. 0 < best_price md oc"
  have dist: "distinct ?ocs" by (simp add: all_outcomes_of_def)
  have fb: "find_best md ?ocs ([], []) =
      (map (\<lambda>oc. (oc, best_price md oc)) (filter ?pos ?ocs),
       map (\<lambda>oc. (oc, best_bookmaker_of md oc)) (filter ?pos ?ocs))"
    using find_best_char[OF dist, of "[]" "[]" md] by (simp add: dict_keys_def)
  have len2: "\<not> length ?ocs < 2"
    using assms by (auto simp: calculate_arbitrage_def Let_def)
  have leneq: "length (filter ?pos ?ocs) = length ?ocs"
    using assms len2 by (auto simp: calculate_arbitrage_def Let_def fb split: if_splits)
  then have fall: "filter ?pos ?ocs = ?ocs" by (rule filter_length_all)
  then have pos: "\<forall>oc \<in> set ?ocs. ?pos oc" by (simp add: filter_id_conv)
  have tot: "sum_list (dict_values (map (\<lambda>(outcome, p). (outcome, 1 / p)) (map (\<lambda>oc. (oc, best_price md oc)) ?ocs)))
      = total_implied md"
    by (simp add: total_implied_def dict_values_def comp_def)
  have imp: "map (\<lambda>(outcome, p). (outcome, 1 / p)) (map (\<lambda>oc. (oc, best_price md oc)) ?ocs)
      = map (\<lambda>oc. (oc, 1 / best_price md oc)) ?ocs" by simp
  show ?thesis
    using assms len2 pos
    unfolding calculate_arbitrage_def Let_def fb fall
    apply (simp only: prod.case tot)
    apply (simp add: imp comp_def split: if_splits option.splits)
    apply auto
    done
qed

subsection \<open>Rejected markets\<close>

text \<open>
  C10. A market whose union of outcome names over all bookmakers has fewer than two
  elements is answered by "no opportunity", even when its lone best price implies a
  total implied probability below 1.
\<close>

theorem single_outcome_market_rejected:
  "card (\<Union>d \<in> set (dict_values md). set (dict_keys (odds d))) < 2 \<Longrightarrow>
   calculate_arbitrage self now ev mt md = None"
proof -
  assume c: "card (\<Union>d \<in> set (dict_values md). set (dict_keys (odds d))) < 2"
  have "length (all_outcomes_of md) = card (\<Union>d \<in> set (dict_values md). set (dict_keys (odds d)))"
    unfolding all_outcomes_of_def by (simp add: length_remdups_card_conv)
  with c have "length (all_outcomes_of md) < 2" by simp
  then show ?thesis by (simp add: calculate_arbitrage_def Let_def)
qed

theorem single_outcome_market_rejected_witness:
  "card (\<Union>d \<in> set (dict_values
       [(''bet365'', \<lparr> odds = [(''home'', 2)], timestamp = Naive 0 \<rparr>),
        (''pinnacle'', \<lparr> odds = [(''home'', 3)], timestamp = Naive 0 \<rparr>)]). set (dict_keys (odds d))) < 2 \<and>
   total_implied
       [(''bet365'', \<lparr> odds = [(''home'', 2)], timestamp = Naive 0 \<rparr>),
        (''pinnacle'', \<lparr> odds = [(''home'', 3)], timestamp = Naive 0 \<rparr>)] < 1 \<and>
   calculate_arbitrage \<lparr> min_profit_percentage = 2, max_stake_percentage = 10, kelly_fraction = 1 / 4 \<rparr>
       100 \<lparr> ev_id = 7, sport = ''soccer'', commence_time = Naive 100000 \<rparr> ''h2h''
       [(''bet365'', \<lparr> odds = [(''home'', 2)], timestamp = Naive 0 \<rparr>),
        (''pinnacle'', \<lparr> odds = [(''home'', 3)], timestamp = Naive 0 \<rparr>)] = None"
proof -
  let ?md = "[(''bet365'', \<lparr> odds = [(''home'', 2::rat)], timestamp = Naive 0 \<rparr>),
        (''pinnacle'', \<lparr> odds = [(''home'', 3)], timestamp = Naive 0 \<rparr>)]"
  have c: "card (\<Union>d \<in> set (dict_values ?md). set (dict_keys (odds d))) < 2"
    by (simp add: dict_values_def dict_keys_def)
  have t: "total_implied ?md < 1"
    by (simp add: total_implied_def all_outcomes_of_def best_price_def price_of_def
        dict_values_def dict_keys_def dict_get_def)
  show ?thesis using c t single_outcome_market_rejected[OF c] by simp
qed

text \<open>
  C1. A market whose best-price implied probabilities sum to 1 or more is answered by
  "no opportunity".
\<close>

theorem no_opportunity_when_total_implied_ge_1:
  "1 \<le> total_implied md \<Longrightarrow> calculate_arbitrage self now ev mt md = None"
proof (rule ccontr)
  assume t: "1 \<le> total_implied md" and "calculate_arbitrage self now ev mt md \<noteq> None"
  then obtain opp where "calculate_arbitrage self now ev mt md = Some opp" by auto
  from calculate_arbitrage_Some[OF this] have "total_implied md < 1" by blast
  with t show False by simp
qed

theorem no_opportunity_when_total_implied_ge_1_witness:
  "1 \<le> total_implied
       [(''bet365'', \<lparr> odds = [(''home'', 5 / 2), (''draw'', 3), (''away'', 3)], timestamp = Naive 0 \<rparr>),
        (''pinnacle'', \<lparr> odds = [(''home'', 12 / 5), (''draw'', 29 / 10), (''away'', 7 / 2)], timestamp = Naive 0 \<rparr>),
        (''betfair'', \<lparr> odds = [(''home'', 5 / 2), (''draw'', 3), (''away'', 17 / 5)], timestamp = Naive 0 \<rparr>)] \<and>
   calculate_arbitrage \<lparr> min_profit_percentage = 2, max_stake_percentage = 10, kelly_fraction = 1 / 4 \<rparr>
       100 \<lparr> ev_id = 7, sport = ''soccer'', commence_time = Naive 100000 \<rparr> ''h2h''
       [(''bet365'', \<lparr> odds = [(''home'', 5 / 2), (''draw'', 3), (''away'', 3)], timestamp = Naive 0 \<rparr>),
        (''pinnacle'', \<lparr> odds = [(''home'', 12 / 5), (''draw'', 29 / 10), (''away'', 7 / 2)], timestamp = Naive 0 \<rparr>),
        (''betfair'', \<lparr> odds = [(''home'', 5 / 2), (''draw'', 3), (''away'', 17 / 5)], timestamp = Naive 0 \<rparr>)] = None"
proof -
  let ?md = "[(''bet365'', \<lparr> odds = [(''home'', 5 / 2 :: rat), (''draw'', 3), (''away'', 3)], timestamp = Naive 0 \<rparr>),
        (''pinnacle'', \<lparr> odds = [(''home'', 12 / 5), (''draw'', 29 / 10), (''away'', 7 / 2)], timestamp = Naive 0 \<rparr>),
        (''betfair'', \<lparr> odds = [(''home'', 5 / 2), (''draw'', 3), (''away'', 17 / 5)], timestamp = Naive 0 \<rparr>)]"
  have t: "1 \<le> total_implied ?md"
    by (simp add: total_implied_def all_outcomes_of_def best_price_def price_of_def
        dict_values_def dict_keys_def dict_get_def)
  show ?thesis using t no_opportunity_when_total_implied_ge_1[OF t] by simp
qed

subsection \<open>Risk score\<close>

lemma risk_score_body_range: "risk_score_body now ev md = Inr r \<Longrightarrow> 1 \<le> r \<and> r \<le> 10"
  unfolding risk_score_body_def Let_def
  by (auto split: sum.splits)

text \<open>
  C5. The risk score lies in [1, 10] for every event and market, and is exactly the base
  score 5 whenever the computation of a signal raises an exception.
\<close>

theorem risk_score_in_range_and_fallback:
  "1 \<le> calculate_risk_score now ev md \<and> calculate_risk_score now ev md \<le> 10 \<and>
   (\<forall>e. risk_score_body now ev md = Inl e \<longrightarrow> calculate_risk_score now ev md = 5)"
proof (cases "risk_score_body now ev md")
  case (Inl e)
  then show ?thesis by (simp add: calculate_risk_score_def)
next
  case (Inr r)
  then show ?thesis using risk_score_body_range[OF Inr] by (simp add: calculate_risk_score_def)
qed

theorem risk_score_in_range_and_fallback_witness:
  "risk_score_body 100 \<lparr> ev_id = 7, sport = ''tennis'', commence_time = Aware 50 \<rparr> [] = Inl TypeError \<and>
   calculate_risk_score 100 \<lparr> ev_id = 7, sport = ''tennis'', commence_time = Aware 50 \<rparr> [] = 5 \<and>
   risk_score_body 100 \<lparr> ev_id = 7, sport = ''tennis'', commence_time = Naive 50 \<rparr> [] = Inr (15 / 2) \<and>
   1 \<le> calculate_risk_score 100 \<lparr> ev_id = 7, sport = ''tennis'', commence_time = Naive 50 \<rparr> [] \<and>
   calculate_risk_score 100 \<lparr> ev_id = 7, sport = ''tennis'', commence_time = Naive 50 \<rparr> [] \<le> 10"
proof -
  have b: "risk_score_body 100 \<lparr> ev_id = 7, sport = ''tennis'', commence_time = Aware 50 \<rparr> [] = Inl TypeError"
    by (simp add: risk_score_body_def)
  have n: "risk_score_body 100 \<lparr> ev_id = 7, sport = ''tennis'', commence_time = Naive 50 \<rparr> [] = Inr (15 / 2)"
    by (simp add: risk_score_body_def dict_values_def)
  show ?thesis
    using b n risk_score_in_range_and_fallback[of 100 "\<lparr> ev_id = 7, sport = ''tennis'', commence_time = Aware 50 \<rparr>" "[]"]
      risk_score_in_range_and_fallback[of 100 "\<lparr> ev_id = 7, sport = ''tennis'', commence_time = Naive 50 \<rparr>" "[]"]
    by simp
qed

subsection \<open>Rounding to two decimals\<close>

lemma round_half_even_err: "\<bar>of_int (round_half_even y) - y\<bar> \<le> 1 / 2"
proof -
  have "of_int \<lfloor>y\<rfloor> \<le> y" "y < of_int \<lfloor>y\<rfloor> + 1" by linarith+
  then show ?thesis unfolding round_half_even_def Let_def by (auto simp: abs_le_iff)
qed

lemma py_round2_err: "\<bar>py_round2 x - x\<bar> \<le> 1 / 200"
proof -
  have e: "py_round2 x - x = (of_int (round_half_even (x * 100)) - x * 100) / 100"
    by (simp add: py_round2_def field_simps)
  have "\<bar>py_round2 x - x\<bar> = \<bar>of_int (round_half_even (x * 100)) - x * 100\<bar> / \<bar>100\<bar>"
    unfolding e by (rule abs_divide)
  also have "\<dots> = \<bar>of_int (round_half_even (x * 100)) - x * 100\<bar> / 100"
    by simp
  also have "\<dots> \<le> (1 / 2) / 100"
    using round_half_even_err[of "x * 100"] by (simp add: divide_right_mono)
  finally show ?thesis by simp
qed

lemma sum_round_err:
  "\<bar>(\<Sum>x \<leftarrow> xs. py_round2 (F x)) - (\<Sum>x \<leftarrow> xs. F x)\<bar> \<le> of_nat (length xs) / 200"
proof (induction xs)
  case Nil
  then show ?case by simp
next
  case (Cons a xs)
  have "\<bar>(py_round2 (F a) - F a) + ((\<Sum>x \<leftarrow> xs. py_round2 (F x)) - (\<Sum>x \<leftarrow> xs. F x))\<bar>
        \<le> 1 / 200 + of_nat (length xs) / 200"
    using py_round2_err[of "F a"] Cons.IH by linarith
  then show ?case by (simp add: algebra_simps)
qed

lemma sum_round_int: "\<exists>k::int. (\<Sum>x \<leftarrow> xs. py_round2 (F x)) = of_int k / 100"
proof (induction xs)
  case Nil
  show ?case by (rule exI[of _ 0]) simp
next
  case (Cons a xs)
  then obtain k where k: "(\<Sum>x \<leftarrow> xs. py_round2 (F x)) = of_int k / 100" by blast
  have "(\<Sum>x \<leftarrow> a # xs. py_round2 (F x)) = of_int (round_half_even (F a * 100) + k) / 100"
    using k by (simp add: py_round2_def add_divide_distrib)
  then show ?case by blast
qed

lemma near_multiple:
  fixes k :: int
  assumes "\<bar>of_int k / 100 - (1000::rat)\<bar> \<le> 3 / 200"
  shows "\<bar>of_int k / 100 - (1000::rat)\<bar> \<le> 1 / 100"
proof -
  have "\<bar>(of_int k :: rat) - 100000\<bar> \<le> 3 / 2"
    using assms by (simp add: abs_le_iff field_simps)
  then have "\<bar>(of_int (k - 100000) :: rat)\<bar> \<le> 3 / 2" by simp
  then have "\<bar>of_int (k - 100000) :: rat\<bar> < of_int 2" by simp
  then have "\<bar>k - 100000\<bar> < 2" unfolding of_int_abs[symmetric] of_int_less_iff .
  then have "\<bar>k - 100000\<bar> \<le> 1" by simp
  then have "\<bar>of_int (k - 100000) :: rat\<bar> \<le> of_int 1" unfolding of_int_abs[symmetric] of_int_le_iff .
  then show ?thesis by (simp add: abs_le_iff field_simps)
qed

lemma stakes_exact_sum:
  assumes "T \<noteq> 0" and "T = (\<Sum>oc \<leftarrow> ocs. 1 / P oc)"
  shows "(\<Sum>oc \<leftarrow> ocs. 1 / P oc / T * 1000) = (1000::rat)"
proof -
  have "(\<Sum>oc \<leftarrow> ocs. 1 / P oc / T * 1000) = (\<Sum>oc \<leftarrow> ocs. (1 / P oc) * (1000 / T))"
    by (simp add: field_simps)
  also have "\<dots> = (\<Sum>oc \<leftarrow> ocs. 1 / P oc) * (1000 / T)"
    by (simp only: sum_list_mult_const)
  also have "\<dots> = 1000" using assms by simp
  finally show ?thesis .
qed

subsection \<open>Evaluating the calculator on the example markets\<close>

lemma floor_rat_numeral: "\<lfloor>numeral a / numeral b :: rat\<rfloor> = numeral a div numeral b"
  using floor_divide_of_int_eq[of "numeral a" "numeral b", where ?'a = rat] by simp

lemmas eval_defs = floor_rat_numeral calculate_arbitrage_def all_outcomes_of_def dict_keys_def dict_values_def
  dict_get_def price_of_def nested_set_def py_round2_def round_half_even_def
  calculate_risk_score_def risk_score_body_def Let_def

lemma two_way_market_result:
  "calculate_arbitrage default_settings 100 example_event ''h2h'' two_way_market
     = Some two_way_opportunity"
  by (simp add: eval_defs default_settings_def example_event_def two_way_market_def
      two_way_opportunity_def)

lemma five_way_market_result:
  "calculate_arbitrage default_settings 100 example_event ''outright'' five_way_market
     = Some five_way_opportunity"
  by (simp add: eval_defs default_settings_def example_event_def five_way_market_def
      five_way_opportunity_def)

lemma tie_market_result:
  "calculate_arbitrage default_settings 100 example_event ''h2h'' tie_market
     = Some tie_opportunity"
  by (simp add: eval_defs default_settings_def example_event_def tie_market_def
      tie_opportunity_def)

subsection \<open>Sums over the reported stakes and odds\<close>

lemma calculate_arbitrage_sums:
  assumes "calculate_arbitrage self now ev mt md = Some opp"
  shows "nested_sum f (bookmaker_stakes opp) =
           (\<Sum>oc \<leftarrow> all_outcomes_of md. f (py_round2 (1 / best_price md oc / total_implied md * 1000)))"
    and "nested_sum g (bookmaker_odds opp) = (\<Sum>oc \<leftarrow> all_outcomes_of md. g (best_price md oc))"
proof -
  let ?ocs = "all_outcomes_of md"
  let ?st = "map (\<lambda>oc. (oc, py_round2 (1 / best_price md oc / total_implied md * 1000))) ?ocs"
  let ?bo = "map (\<lambda>oc. (oc, best_price md oc)) ?ocs"
  from calculate_arbitrage_Some[OF assms] obtain bstakes bodds where
    org: "organize ?ocs (map (\<lambda>oc. (oc, best_bookmaker_of md oc)) ?ocs) ?st ?bo ([], []) = Some (bstakes, bodds)"
    and bs: "bookmaker_stakes opp = bstakes" and bd: "bookmaker_odds opp = bodds"
    by auto
  have dist: "distinct ?ocs" by (simp add: all_outcomes_of_def)
  have s: "nested_sum f bstakes = nested_sum f [] + (\<Sum>oc \<leftarrow> ?ocs. f (the (dict_get ?st oc)))
         \<and> nested_sum g bodds = nested_sum g [] + (\<Sum>oc \<leftarrow> ?ocs. g (the (dict_get ?bo oc)))"
    by (rule organize_sums[OF org dist]) (simp_all add: inner_keys_def dict_values_def)
  have e1: "(\<Sum>oc \<leftarrow> ?ocs. f (the (dict_get ?st oc))) =
            (\<Sum>oc \<leftarrow> ?ocs. f (py_round2 (1 / best_price md oc / total_implied md * 1000)))"
    by (rule arg_cong[where f = sum_list], rule map_cong) (simp_all add: dict_get_map)
  have e2: "(\<Sum>oc \<leftarrow> ?ocs. g (the (dict_get ?bo oc))) = (\<Sum>oc \<leftarrow> ?ocs. g (best_price md oc))"
    by (rule arg_cong[where f = sum_list], rule map_cong) (simp_all add: dict_get_map)
  show "nested_sum f (bookmaker_stakes opp) =
           (\<Sum>oc \<leftarrow> ?ocs. f (py_round2 (1 / best_price md oc / total_implied md * 1000)))"
    using s e1 bs by (simp add: nested_sum_def dict_values_def)
  show "nested_sum g (bookmaker_odds opp) = (\<Sum>oc \<leftarrow> ?ocs. g (best_price md oc))"
    using s e2 bd by (simp add: nested_sum_def dict_values_def)
qed

text \<open>
  C6, as the code has it. The reported profit percentage is the value
  \<open>(1 / total_implied - 1) * 100\<close>, with \<open>total_implied\<close> recomputed from the
  reported odds, rounded to two decimals.
\<close>

theorem profit_percentage_is_rounded_recomputed_profit:
  assumes "calculate_arbitrage self now ev mt md = Some opp"
  shows "profit_percentage opp = py_round2 (recomputed_profit opp)"
proof -
  have t: "recomputed_total_implied opp = total_implied md"
    unfolding recomputed_total_implied_def total_implied_def
    using calculate_arbitrage_sums(2)[OF assms, of implied_probability]
    by (simp add: implied_probability_def)
  from calculate_arbitrage_Some[OF assms] have
    nz: "total_implied md \<noteq> 0" and
    pp: "profit_percentage opp = py_round2 ((1 - total_implied md) / total_implied md * 100)"
    by auto
  have "(1 - total_implied md) / total_implied md = 1 / total_implied md - 1"
    using nz by (simp add: field_simps)
  then show ?thesis using pp t by (simp add: recomputed_profit_def)
qed

theorem profit_percentage_is_rounded_recomputed_profit_witness:
  "calculate_arbitrage default_settings 100 example_event ''h2h'' two_way_market
     = Some two_way_opportunity \<and>
   profit_percentage two_way_opportunity = py_round2 (recomputed_profit two_way_opportunity)"
  using two_way_market_result
    profit_percentage_is_rounded_recomputed_profit[OF two_way_market_result]
  by simp

text \<open>
  C6 as stated fails: on the two-way market the reported profit percentage is 7.44,
  the recomputed one 320/43 = 7.4418...
\<close>

theorem profit_percentage_not_exact_counterexample:
  "calculate_arbitrage default_settings 100 example_event ''h2h'' two_way_market
     = Some two_way_opportunity \<and>
   profit_percentage two_way_opportunity = 186 / 25 \<and>
   recomputed_profit two_way_opportunity = 320 / 43 \<and>
   profit_percentage two_way_opportunity \<noteq> recomputed_profit two_way_opportunity"
proof -
  have "recomputed_profit two_way_opportunity = 320 / 43"
    by (simp add: recomputed_profit_def recomputed_total_implied_def nested_sum_def
        implied_probability_def dict_values_def two_way_opportunity_def)
  moreover have "profit_percentage two_way_opportunity = 186 / 25"
    by (simp add: two_way_opportunity_def)
  ultimately show ?thesis using two_way_market_result by simp
qed

text \<open>
  C2, as the code has it. The stakes of a returned opportunity sum to the total stake
  within 0.005 per outcome of the market, and within 0.01 when the market has at most
  three outcomes.
\<close>

theorem stake_sum_within_rounding_of_total:
  assumes "calculate_arbitrage self now ev mt md = Some opp"
  shows "\<bar>stake_sum opp - total_stake opp\<bar> \<le> of_nat (length (all_outcomes_of md)) / 200 \<and>
         (length (all_outcomes_of md) \<le> 3 \<longrightarrow> \<bar>stake_sum opp - total_stake opp\<bar> \<le> 1 / 100)"
proof -
  let ?ocs = "all_outcomes_of md"
  let ?F = "\<lambda>oc. 1 / best_price md oc / total_implied md * 1000"
  from calculate_arbitrage_Some[OF assms] have
    nz: "total_implied md \<noteq> 0" and ts: "total_stake opp = 1000" by auto
  have ss: "stake_sum opp = (\<Sum>oc \<leftarrow> ?ocs. py_round2 (?F oc))"
    unfolding stake_sum_def using calculate_arbitrage_sums(1)[OF assms, of "\<lambda>s. s"] by simp
  have ex: "(\<Sum>oc \<leftarrow> ?ocs. ?F oc) = 1000"
    by (rule stakes_exact_sum[OF nz]) (simp add: total_implied_def)
  have b1: "\<bar>stake_sum opp - 1000\<bar> \<le> of_nat (length ?ocs) / 200"
    using sum_round_err[of ?F ?ocs] ss ex by simp
  have b2: "\<bar>stake_sum opp - 1000\<bar> \<le> 1 / 100" if le: "length ?ocs \<le> 3"
  proof -
    obtain k :: int where k: "stake_sum opp = of_int k / 100"
      using sum_round_int[of ?F ?ocs] ss by auto
    have "(of_nat (length ?ocs) :: rat) \<le> 3" using le by simp
    then have "\<bar>of_int k / 100 - (1000::rat)\<bar> \<le> 3 / 200" using b1 k by simp
    from near_multiple[OF this] show ?thesis unfolding k .
  qed
  show ?thesis using b1 b2 ts by simp
qed

theorem stake_sum_within_rounding_of_total_witness:
  "calculate_arbitrage default_settings 100 example_event ''h2h'' two_way_market
     = Some two_way_opportunity \<and>
   length (all_outcomes_of two_way_market) \<le> 3 \<and>
   \<bar>stake_sum two_way_opportunity - total_stake two_way_opportunity\<bar>
     \<le> of_nat (length (all_outcomes_of two_way_market)) / 200 \<and>
   \<bar>stake_sum two_way_opportunity - total_stake two_way_opportunity\<bar> \<le> 1 / 100"
proof -
  have "length (all_outcomes_of two_way_market) \<le> 3"
    by (simp add: all_outcomes_of_def two_way_market_def dict_values_def dict_keys_def)
  then show ?thesis
    using two_way_market_result stake_sum_within_rounding_of_total[OF two_way_market_result]
    by simp
qed

text \<open>
  C2 as stated fails: on the five-way market the five rounded stakes sum to 999.98.
\<close>

theorem stake_sum_off_by_two_cents_counterexample:
  "calculate_arbitrage default_settings 100 example_event ''outright'' five_way_market
     = Some five_way_opportunity \<and>
   stake_sum five_way_opportunity = 49999 / 50 \<and>
   total_stake five_way_opportunity = 1000 \<and>
   \<not> \<bar>stake_sum five_way_opportunity - total_stake five_way_opportunity\<bar> \<le> 1 / 100"
proof -
  have s: "stake_sum five_way_opportunity = 49999 / 50"
    by (simp add: stake_sum_def nested_sum_def dict_values_def five_way_opportunity_def)
  have t: "total_stake five_way_opportunity = 1000"
    by (simp add: five_way_opportunity_def)
  show ?thesis using five_way_market_result s t by simp
qed

subsection \<open>The bookmaker chosen for an outcome\<close>

lemma best_for_first:
  "best_for oc md best = Some (p, bm) \<Longrightarrow>
   (best = Some (p, bm) \<and> (\<forall>x \<in> set md. price_of (snd x) oc \<le> p)) \<or>
   (\<exists>pre d post. md = pre @ (bm, d) # post \<and> price_of d oc = p \<and> cur_odd best < p \<and>
      (\<forall>x \<in> set pre. price_of (snd x) oc < p) \<and> (\<forall>x \<in> set post. price_of (snd x) oc \<le> p))"
proof (induction md arbitrary: best)
  case Nil
  then show ?case by simp
next
  case (Cons a md)
  obtain b0 d0 where a: "a = (b0, d0)" by (cases a)
  show ?case
  proof (cases "cur_odd best < price_of d0 oc")
    case True
    have r: "best_for oc md (Some (price_of d0 oc, b0)) = Some (p, bm)"
      using True a Cons.prems by (cases best) auto
    from Cons.IH[OF r] show ?thesis
    proof
      assume h: "Some (price_of d0 oc, b0) = Some (p, bm) \<and> (\<forall>x \<in> set md. price_of (snd x) oc \<le> p)"
      then have "a # md = [] @ (bm, d0) # md \<and> price_of d0 oc = p \<and> cur_odd best < p"
        using a True by auto
      with h show ?thesis by fastforce
    next
      assume "\<exists>pre d post. md = pre @ (bm, d) # post \<and> price_of d oc = p \<and>
          cur_odd (Some (price_of d0 oc, b0)) < p \<and>
          (\<forall>x \<in> set pre. price_of (snd x) oc < p) \<and> (\<forall>x \<in> set post. price_of (snd x) oc \<le> p)"
      then obtain pre d post where h: "md = pre @ (bm, d) # post" "price_of d oc = p"
          "price_of d0 oc < p" "\<forall>x \<in> set pre. price_of (snd x) oc < p"
          "\<forall>x \<in> set post. price_of (snd x) oc \<le> p" by auto
      have "a # md = (a # pre) @ (bm, d) # post" using h(1) by simp
      moreover have "\<forall>x \<in> set (a # pre). price_of (snd x) oc < p" using h(3,4) a by simp
      moreover have "cur_odd best < p" using True h(3) by simp
      ultimately show ?thesis using h(2,5) by blast
    qed
  next
    case False
    have r: "best_for oc md best = Some (p, bm)"
      using False a Cons.prems by (cases best) auto
    from Cons.IH[OF r] show ?thesis
    proof
      assume h: "best = Some (p, bm) \<and> (\<forall>x \<in> set md. price_of (snd x) oc \<le> p)"
      then have "price_of d0 oc \<le> p" using False by simp
      with h a show ?thesis by simp
    next
      assume "\<exists>pre d post. md = pre @ (bm, d) # post \<and> price_of d oc = p \<and>
          cur_odd best < p \<and>
          (\<forall>x \<in> set pre. price_of (snd x) oc < p) \<and> (\<forall>x \<in> set post. price_of (snd x) oc \<le> p)"
      then obtain pre d post where h: "md = pre @ (bm, d) # post" "price_of d oc = p"
          "cur_odd best < p" "\<forall>x \<in> set pre. price_of (snd x) oc < p"
          "\<forall>x \<in> set post. price_of (snd x) oc \<le> p" by auto
      have "a # md = (a # pre) @ (bm, d) # post" using h(1) by simp
      moreover have "\<forall>x \<in> set (a # pre). price_of (snd x) oc < p" using h(3,4) a False by simp
      ultimately show ?thesis using h(2,3,5) by blast
    qed
  qed
qed

lemma find_after_prefix:
  "(\<forall>x \<in> set pre. \<not> P x) \<Longrightarrow> P y \<Longrightarrow> find P (pre @ y # post) = Some y"
  by (induction pre) auto

lemma best_for_is_first:
  assumes "best_for oc md None = Some (p, bm)"
  shows "first_best_bookmaker md oc = Some bm"
proof -
  have p: "p = best_price md oc" using best_for_Some[OF assms] by simp
  from best_for_first[OF assms] obtain pre d post where
    h: "md = pre @ (bm, d) # post" "price_of d oc = p" "\<forall>x \<in> set pre. price_of (snd x) oc < p"
    by auto
  have "find (\<lambda>(b, d). price_of d oc = p) (pre @ (bm, d) # post) = Some (bm, d)"
    by (rule find_after_prefix) (use h in auto)
  then show ?thesis using h(1) p by (simp add: first_best_bookmaker_def)
qed

text \<open>
  C3, as the code has it. In a returned opportunity every outcome of the market is
  listed, with the best price, under exactly one bookmaker: the first one in the
  iteration order of the input mapping that quotes the best price.
\<close>

theorem best_bookmaker_is_first_at_best_price:
  assumes "calculate_arbitrage self now ev mt md = Some opp"
    and "outcome \<in> set (all_outcomes_of md)"
  shows "\<exists>bm. first_best_bookmaker md outcome = Some bm \<and>
           (\<forall>b. lookup2 (bookmaker_odds opp) b outcome =
                  (if b = bm then Some (best_price md outcome) else None))"
proof -
  let ?ocs = "all_outcomes_of md"
  let ?bb = "map (\<lambda>oc. (oc, best_bookmaker_of md oc)) ?ocs"
  let ?bo = "map (\<lambda>oc. (oc, best_price md oc)) ?ocs"
  from calculate_arbitrage_Some[OF assms(1)] obtain bstakes bodds st where
    pos: "\<forall>oc \<in> set ?ocs. 0 < best_price md oc"
    and org: "organize ?ocs ?bb st ?bo ([], []) = Some (bstakes, bodds)"
    and bd: "bookmaker_odds opp = bodds"
    by auto
  have "best_price md outcome \<noteq> 0" using pos assms(2) by auto
  then obtain p bm where bf: "best_for outcome md None = Some (p, bm)"
    using best_for_None[of outcome md] by (cases "best_for outcome md None") auto
  have bm: "best_bookmaker_of md outcome = bm" using bf by (simp add: best_bookmaker_of_def)
  have first: "first_best_bookmaker md outcome = Some bm" by (rule best_for_is_first[OF bf])
  have l0: "lookup2 [] b outcome = None" for b by (simp add: lookup2_def dict_get_def)
  have look: "lookup2 bodds b outcome = (if b = bm then Some (best_price md outcome) else None)" for b
    using organize_lookup2[OF org, of b outcome] assms(2) bm l0[of b]
    by (auto simp: dict_get_map dict_keys_def)
  show ?thesis using first look bd by auto
qed

theorem best_bookmaker_is_first_at_best_price_witness:
  "calculate_arbitrage default_settings 100 example_event ''h2h'' tie_market
     = Some tie_opportunity \<and>
   ''home'' \<in> set (all_outcomes_of tie_market) \<and>
   first_best_bookmaker tie_market ''home'' = Some ''pinnacle'' \<and>
   lookup2 (bookmaker_odds tie_opportunity) ''pinnacle'' ''home''
     = Some (best_price tie_market ''home'') \<and>
   lookup2 (bookmaker_odds tie_opportunity) ''bet365'' ''home'' = None"
proof -
  have h: "''home'' \<in> set (all_outcomes_of tie_market)"
    by (simp add: all_outcomes_of_def tie_market_def dict_values_def dict_keys_def)
  have f: "first_best_bookmaker tie_market ''home'' = Some ''pinnacle''"
    by (simp add: first_best_bookmaker_def tie_market_def best_price_def price_of_def
        dict_get_def dict_values_def)
  from best_bookmaker_is_first_at_best_price[OF tie_market_result h] obtain bm where
    b: "first_best_bookmaker tie_market ''home'' = Some bm"
    and l: "\<And>b. lookup2 (bookmaker_odds tie_opportunity) b ''home''
              = (if b = bm then Some (best_price tie_market ''home'') else None)"
    by blast
  have bm: "bm = ''pinnacle''" using b f by simp
  show ?thesis using tie_market_result h f l[of "''pinnacle''"] l[of "''bet365''"] bm by simp
qed

text \<open>
  C3 as stated fails: on the tie market both bookmakers quote 2.10 for the home
  outcome and \<open>bet365\<close> is the lexicographically smaller name, yet the outcome is
  given to \<open>pinnacle\<close>, which comes first in the mapping; with the mapping reversed
  it is given to \<open>bet365\<close>.
\<close>

theorem tie_goes_to_first_bookmaker_counterexample:
  "best_price_bookmakers tie_market ''home'' = [''pinnacle'', ''bet365''] \<and>
   ''bet365'' < ''pinnacle'' \<and>
   map_option bookmaker_odds
     (calculate_arbitrage default_settings 100 example_event ''h2h'' tie_market)
     = Some [(''pinnacle'', [(''home'', 21 / 10)]), (''bet365'', [(''away'', 11 / 5)])] \<and>
   map_option bookmaker_odds
     (calculate_arbitrage default_settings 100 example_event ''h2h'' (rev tie_market))
     = Some [(''bet365'', [(''home'', 21 / 10), (''away'', 11 / 5)])]"
proof -
  have a: "best_price_bookmakers tie_market ''home'' = [''pinnacle'', ''bet365'']"
    by (simp add: best_price_bookmakers_def tie_market_def best_price_def price_of_def
        dict_get_def dict_values_def)
  have b: "(''bet365''::string) < ''pinnacle''" by simp
  have c: "map_option bookmaker_odds
     (calculate_arbitrage default_settings 100 example_event ''h2h'' tie_market)
     = Some [(''pinnacle'', [(''home'', 21 / 10)]), (''bet365'', [(''away'', 11 / 5)])]"
    by (simp add: tie_market_result tie_opportunity_def)
  have d: "map_option bookmaker_odds
     (calculate_arbitrage default_settings 100 example_event ''h2h'' (rev tie_market))
     = Some [(''bet365'', [(''home'', 21 / 10), (''away'', 11 / 5)])]"
    by (simp add: eval_defs default_settings_def example_event_def tie_market_def)
  show ?thesis using a b c d by simp
qed

subsection \<open>Markets with fewer than two bookmakers\<close>

lemma group_markets_inv:
  assumes "\<forall>x \<in> set obm. distinct (dict_keys (snd x)) \<and> (\<forall>b \<in> set (dict_keys (snd x)). Q (fst x) b)"
    and "\<forall>mt \<in> set (dict_keys items). Q mt bm"
  shows "\<forall>x \<in> set (group_markets items bm ts obm).
           distinct (dict_keys (snd x)) \<and> (\<forall>b \<in> set (dict_keys (snd x)). Q (fst x) b)"
  using assms
proof (induction items arbitrary: obm)
  case Nil
  then show ?case by simp
next
  case (Cons it items)
  obtain mt mo where it: "it = (mt, mo)" by (cases it)
  let ?md = "case dict_get obm mt of None \<Rightarrow> [] | Some m \<Rightarrow> m"
  let ?v = "\<lparr> odds = mo, timestamp = ts \<rparr>"
  let ?obm' = "dict_set mt (dict_set bm ?v ?md) obm"
  have q: "Q mt bm" using Cons.prems(2) it by (simp add: dict_keys_def)
  have md: "distinct (dict_keys ?md) \<and> (\<forall>b \<in> set (dict_keys ?md). Q mt b)"
  proof (cases "dict_get obm mt")
    case None
    then show ?thesis by (simp add: dict_keys_def)
  next
    case (Some m)
    then have "(mt, m) \<in> set obm" by (simp add: dict_get_def map_of_SomeD)
    with Cons.prems(1) Some show ?thesis by fastforce
  qed
  have new: "distinct (dict_keys (dict_set bm ?v ?md)) \<and> (\<forall>b \<in> set (dict_keys (dict_set bm ?v ?md)). Q mt b)"
    using md q by (auto simp: dict_keys_set)
  have inv': "\<forall>x \<in> set ?obm'. distinct (dict_keys (snd x)) \<and> (\<forall>b \<in> set (dict_keys (snd x)). Q (fst x) b)"
  proof
    fix x assume "x \<in> set ?obm'"
    then have "x = (mt, dict_set bm ?v ?md) \<or> x \<in> set obm"
      using set_dict_set[of mt "dict_set bm ?v ?md" obm] by auto
    then show "distinct (dict_keys (snd x)) \<and> (\<forall>b \<in> set (dict_keys (snd x)). Q (fst x) b)"
      using new Cons.prems(1) by auto
  qed
  have rest: "\<forall>mt \<in> set (dict_keys items). Q mt bm" using Cons.prems(2) by (simp add: dict_keys_def)
  from Cons.IH[OF inv' rest] show ?case using it by (simp add: Let_def)
qed

lemma group_snapshots_inv:
  assumes "\<forall>x \<in> set obm. distinct (dict_keys (snd x)) \<and> (\<forall>b \<in> set (dict_keys (snd x)). Q (fst x) b)"
    and "\<forall>s \<in> set snaps. \<forall>mt \<in> set (dict_keys (odds_data s)). Q mt (bookmaker s)"
  shows "\<forall>x \<in> set (group_snapshots snaps obm).
           distinct (dict_keys (snd x)) \<and> (\<forall>b \<in> set (dict_keys (snd x)). Q (fst x) b)"
  using assms
proof (induction snaps arbitrary: obm)
  case Nil
  then show ?case by simp
next
  case (Cons s snaps)
  have "\<forall>x \<in> set (group_markets (odds_data s) (bookmaker s) (captured_at s) obm).
           distinct (dict_keys (snd x)) \<and> (\<forall>b \<in> set (dict_keys (snd x)). Q (fst x) b)"
    by (rule group_markets_inv[OF Cons.prems(1)]) (use Cons.prems(2) in simp)
  from Cons.IH[OF this] show ?case using Cons.prems(2) by simp
qed

lemma calculate_arbitrage_market_type:
  "calculate_arbitrage self now ev mt md = Some opp \<Longrightarrow> market_type opp = mt"
  using calculate_arbitrage_Some[of self now ev mt md opp] by auto

lemma analyze_markets_source:
  "opp \<in> set (analyze_markets self now ev obm) \<Longrightarrow>
   \<exists>md. (market_type opp, md) \<in> set obm \<and> 2 \<le> length md"
proof (induction obm)
  case Nil
  then show ?case by simp
next
  case (Cons x obm)
  obtain mt md where x: "x = (mt, md)" by (cases x)
  show ?case
  proof (cases "2 \<le> length md \<and> calculate_arbitrage self now ev mt md = Some opp")
    case True
    then have "market_type opp = mt" using calculate_arbitrage_market_type by blast
    with True x show ?thesis by auto
  next
    case False
    then have "opp \<in> set (analyze_markets self now ev obm)"
      using Cons.prems x by (auto split: if_splits option.splits)
    from Cons.IH[OF this] show ?thesis by auto
  qed
qed

text \<open>
  C8. A market of an event to which fewer than two distinct bookmakers contribute
  yields no opportunity: \<^verbatim>\<open>_analyze_event_for_arbitrage\<close> returns its list (it raises
  nothing) and no opportunity in it is for that market.
\<close>

theorem market_needs_two_bookmakers:
  assumes "card (contributing_bookmakers now ev snapshot_table mt) < 2"
  shows "\<forall>opp \<in> set (analyze_event_for_arbitrage self now ev snapshot_table). market_type opp \<noteq> mt"
proof
  fix opp assume o: "opp \<in> set (analyze_event_for_arbitrage self now ev snapshot_table)"
  show "market_type opp \<noteq> mt"
  proof
    assume m: "market_type opp = mt"
    let ?snaps = "fresh_snapshots now ev snapshot_table"
    let ?Q = "\<lambda>m b. b \<in> contributing_bookmakers now ev snapshot_table m"
    have "opp \<in> set (analyze_markets self now ev (group_snapshots ?snaps []))"
      using o by (auto simp: analyze_event_for_arbitrage_def Let_def split: if_splits)
    from analyze_markets_source[OF this] m obtain md where
      md: "(mt, md) \<in> set (group_snapshots ?snaps [])" and len: "2 \<le> length md" by auto
    have src: "\<forall>s \<in> set ?snaps. \<forall>m \<in> set (dict_keys (odds_data s)). ?Q m (bookmaker s)"
      by (auto simp: fresh_snapshots_def contributing_bookmakers_def)
    have "\<forall>x \<in> set (group_snapshots ?snaps []).
           distinct (dict_keys (snd x)) \<and> (\<forall>b \<in> set (dict_keys (snd x)). ?Q (fst x) b)"
      by (rule group_snapshots_inv[OF _ src]) simp
    with md have d: "distinct (dict_keys md)"
      and sub: "set (dict_keys md) \<subseteq> contributing_bookmakers now ev snapshot_table mt"
      by auto
    have "length md = card (set (dict_keys md))"
      using distinct_card[OF d] by (simp add: dict_keys_def)
    also have "\<dots> \<le> card (contributing_bookmakers now ev snapshot_table mt)"
      by (rule card_mono[OF _ sub]) (simp add: contributing_bookmakers_def)
    finally show False using len assms by simp
  qed
qed

lemma example_snapshots_grouped:
  "group_snapshots (fresh_snapshots 100 example_event example_snapshots) [] =
     [(''h2h'', two_way_market),
      (''totals'', [(''bet365'', \<lparr> odds = [(''over'', 21 / 10), (''under'', 2)], timestamp = Naive 0 \<rparr>)])]"
  by (simp add: fresh_snapshots_def is_fresh_def example_snapshots_def example_event_def
      two_way_market_def dict_get_def)

lemma example_snapshots_result:
  "analyze_event_for_arbitrage default_settings 100 example_event example_snapshots
     = [two_way_opportunity]"
proof -
  have "length (fresh_snapshots 100 example_event example_snapshots) = 2"
    by (simp add: fresh_snapshots_def is_fresh_def example_snapshots_def example_event_def)
  then show ?thesis
    by (simp add: analyze_event_for_arbitrage_def example_snapshots_grouped two_way_market_result)
       (simp add: two_way_market_def)
qed

theorem market_needs_two_bookmakers_witness:
  "card (contributing_bookmakers 100 example_event example_snapshots ''totals'') < 2 \<and>
   analyze_event_for_arbitrage default_settings 100 example_event example_snapshots
     = [two_way_opportunity] \<and>
   ''totals'' \<notin> set (map market_type
      (analyze_event_for_arbitrage default_settings 100 example_event example_snapshots))"
proof -
  have c: "card (contributing_bookmakers 100 example_event example_snapshots ''totals'') < 2"
    by (simp add: contributing_bookmakers_def is_fresh_def example_snapshots_def
        example_event_def dict_keys_def)
  from market_needs_two_bookmakers[OF c, of default_settings]
  have "''totals'' \<notin> set (map market_type
      (analyze_event_for_arbitrage default_settings 100 example_event example_snapshots))"
    by auto
  then show ?thesis using c example_snapshots_result by simp
qed

subsection \<open>Suppression of duplicates\<close>

lemma store_loop_new_rows:
  "store_loop autoflush now db opps pending = Inr p' \<Longrightarrow>
   \<exists>new. p' = pending @ new \<and>
     (\<forall>r \<in> set new. \<exists>c \<in> set opps. event_id r = event_id c \<and> market_type r = market_type c \<and>
        (\<forall>x \<in> set db. \<not> is_duplicate now c x))"
proof (induction opps arbitrary: pending)
  case Nil
  then show ?case by simp
next
  case (Cons c opps)
  let ?q = "filter (is_duplicate now c) (db @ (if autoflush then pending else []))"
  show ?case
  proof (cases ?q)
    case Nil
    then have nodup: "\<forall>x \<in> set db. \<not> is_duplicate now c x" by (auto simp: filter_empty_conv)
    have "store_loop autoflush now db opps (pending @ [new_row now c]) = Inr p'"
      using Cons.prems Nil by simp
    from Cons.IH[OF this] obtain new where
      n: "p' = (pending @ [new_row now c]) @ new"
      "\<forall>r \<in> set new. \<exists>c \<in> set opps. event_id r = event_id c \<and> market_type r = market_type c \<and>
        (\<forall>x \<in> set db. \<not> is_duplicate now c x)" by blast
    have "p' = pending @ (new_row now c # new)" using n(1) by simp
    moreover have "\<forall>r \<in> set (new_row now c # new). \<exists>c' \<in> set (c # opps).
        event_id r = event_id c' \<and> market_type r = market_type c' \<and>
        (\<forall>x \<in> set db. \<not> is_duplicate now c' x)"
      using n(2) nodup by (auto simp: new_row_def)
    ultimately show ?thesis by blast
  next
    case (Cons a q')
    show ?thesis
    proof (cases q')
      case Nil
      then have "store_loop autoflush now db opps pending = Inr p'"
        using Cons.prems \<open>?q = a # q'\<close> by simp
      from Cons.IH[OF this] show ?thesis by auto
    next
      case (Cons b q'')
      then have "store_loop autoflush now db (c # opps) pending = Inl MultipleResultsFound"
        using \<open>?q = a # q'\<close> by simp
      then show ?thesis using Cons.prems by simp
    qed
  qed
qed

text \<open>
  C7. When the table already holds a row for the (event, market) of a candidate, with
  status detected or analyzed and detected within the last hour, the call leaves every
  row of the table as it was and inserts no row for that (event, market). (With two or
  more such rows the lookup raises, the transaction is rolled back and nothing at all
  is inserted.)
\<close>

theorem existing_opportunity_suppresses_insert:
  assumes "opp \<in> set opportunities" and "\<exists>r \<in> set db. is_duplicate now opp r"
  shows "take (length db) (fst (store_opportunities autoflush now db opportunities)) = db \<and>
         (\<forall>r \<in> set (drop (length db) (fst (store_opportunities autoflush now db opportunities))).
            \<not> (event_id r = event_id opp \<and> market_type r = market_type opp))"
proof (cases "store_loop autoflush now db opportunities []")
  case (Inl e)
  then show ?thesis by (simp add: store_opportunities_def)
next
  case (Inr p')
  from store_loop_new_rows[OF Inr] have new:
    "\<forall>r \<in> set p'. \<exists>c \<in> set opportunities. event_id r = event_id c \<and> market_type r = market_type c \<and>
        (\<forall>x \<in> set db. \<not> is_duplicate now c x)" by simp
  obtain r0 where r0: "r0 \<in> set db" "is_duplicate now opp r0" using assms(2) by blast
  have "\<not> (event_id r = event_id opp \<and> market_type r = market_type opp)" if "r \<in> set p'" for r
  proof
    assume same: "event_id r = event_id opp \<and> market_type r = market_type opp"
    from new that obtain c where c: "event_id r = event_id c" "market_type r = market_type c"
      "\<forall>x \<in> set db. \<not> is_duplicate now c x" by blast
    have "is_duplicate now c r0" using r0(2) same c(1,2) by (simp add: is_duplicate_def)
    with c(3) r0(1) show False by blast
  qed
  then show ?thesis using Inr by (simp add: store_opportunities_def)
qed

theorem existing_opportunity_suppresses_insert_witness:
  "two_way_opportunity \<in> set [two_way_opportunity, five_way_opportunity] \<and>
   is_duplicate 100 two_way_opportunity (new_row 50 two_way_opportunity) \<and>
   store_opportunities True 100 [new_row 50 two_way_opportunity]
       [two_way_opportunity, five_way_opportunity]
     = ([new_row 50 two_way_opportunity, new_row 100 five_way_opportunity], None) \<and>
   take (length [new_row 50 two_way_opportunity])
     (fst (store_opportunities True 100 [new_row 50 two_way_opportunity]
        [two_way_opportunity, five_way_opportunity]))
     = [new_row 50 two_way_opportunity]"
proof -
  have m: "two_way_opportunity \<in> set [two_way_opportunity, five_way_opportunity]" by simp
  have d: "is_duplicate 100 two_way_opportunity (new_row 50 two_way_opportunity)"
    by (simp add: is_duplicate_def new_row_def)
  then have e: "\<exists>r \<in> set [new_row 50 two_way_opportunity]. is_duplicate 100 two_way_opportunity r"
    by simp
  have n1: "\<not> is_duplicate 100 five_way_opportunity (new_row 50 two_way_opportunity)"
    by (simp add: is_duplicate_def new_row_def two_way_opportunity_def five_way_opportunity_def)
  have r: "store_opportunities True 100 [new_row 50 two_way_opportunity]
       [two_way_opportunity, five_way_opportunity]
     = ([new_row 50 two_way_opportunity, new_row 100 five_way_opportunity], None)"
    by (simp add: store_opportunities_def d n1)
  show ?thesis
    using m d r existing_opportunity_suppresses_insert[OF m e, of True]
    by simp
qed

subsection \<open>Cleanup sweep\<close>

text \<open>
  C9. The sweep keeps the rows in place, sets the status of a row to expired exactly
  when its \<open>expires_at\<close> is not later than the sweep's clock reading and its status is
  detected or analyzed, changes no other field, and leaves every other row, the
  executed ones among them, as it is.
\<close>

theorem cleanup_marks_exactly_due_rows:
  "length (cleanup_expired_opportunities now db) = length db \<and>
   (\<forall>i < length db.
      cleanup_expired_opportunities now db ! i =
        (if (\<exists>t. expires_at (db ! i) = Some t \<and> instant t \<le> now) \<and>
            (status (db ! i) = ''detected'' \<or> status (db ! i) = ''analyzed'')
         then (db ! i)\<lparr>status := ''expired''\<rparr> else db ! i) \<and>
      (status (db ! i) = ''executed'' \<longrightarrow> cleanup_expired_opportunities now db ! i = db ! i))"
  by (auto simp: cleanup_expired_opportunities_def split: option.splits)

theorem cleanup_marks_exactly_due_rows_witness:
  "0 < length example_rows \<and>
   cleanup_expired_opportunities 2000 example_rows ! 0
     = (new_row 50 two_way_opportunity)\<lparr>status := ''expired''\<rparr> \<and>
   1 < length example_rows \<and> status (example_rows ! 1) = ''executed'' \<and>
   cleanup_expired_opportunities 2000 example_rows ! 1 = example_rows ! 1 \<and>
   cleanup_expired_opportunities 2000 example_rows ! 2 = example_rows ! 2"
proof -
  have l: "length example_rows = 3" by (simp add: example_rows_def)
  have r0: "example_rows ! 0 = new_row 50 two_way_opportunity"
    and r1: "example_rows ! 1 = (new_row 50 two_way_opportunity)\<lparr>status := ''executed''\<rparr>"
    and r2: "example_rows ! 2 = (new_row 50 five_way_opportunity)
               \<lparr>status := ''analyzed'', expires_at := Some (Naive 3000)\<rparr>"
    by (simp_all add: example_rows_def)
  have e0: "expires_at (new_row 50 two_way_opportunity) = Some (Naive 1000)"
    and s0: "status (new_row 50 two_way_opportunity) = ''detected''"
    by (simp_all add: new_row_def two_way_opportunity_def)
  from cleanup_marks_exactly_due_rows[of 2000 example_rows]
  have c: "\<And>i. i < 3 \<Longrightarrow> cleanup_expired_opportunities 2000 example_rows ! i =
        (if (\<exists>t. expires_at (example_rows ! i) = Some t \<and> instant t \<le> 2000) \<and>
            (status (example_rows ! i) = ''detected'' \<or> status (example_rows ! i) = ''analyzed'')
         then (example_rows ! i)\<lparr>status := ''expired''\<rparr> else example_rows ! i)"
    using l by simp
  have c0: "cleanup_expired_opportunities 2000 example_rows ! 0
     = (new_row 50 two_way_opportunity)\<lparr>status := ''expired''\<rparr>"
    using c[of 0] r0 e0 s0 by simp
  have c1: "cleanup_expired_opportunities 2000 example_rows ! 1 = example_rows ! 1"
    using c[of 1] r1 by simp
  have c2: "cleanup_expired_opportunities 2000 example_rows ! 2 = example_rows ! 2"
    using c[of 2] r2 by simp
  show ?thesis using l c0 c1 c2 r1 by simp
qed

subsection \<open>Assumed true probability of a Kelly leg\<close>

text \<open>
  C4. The code replaces the estimate by 0.95 only when it exceeds 1, so an estimate
  between 0.95 and 1 is used as it is: at odds 1.08 the Kelly formula is given
  35/36 = 0.972..., above the cap of 0.95 that the claim states.
\<close>

theorem kelly_true_prob_above_cap:
  "kelly_true_prob (27 / 25) = 35 / 36 \<and> 95 / 100 < kelly_true_prob (27 / 25)"
  by (simp add: kelly_true_prob_def)

end
